(* ===== verification/Prelude.thy ===== *)
theory Prelude
  imports Main "HOL-Library.Word" "HOL-Library.Finite_Map" "HOL-Library.Multiset"
begin

text \<open>
  The part of the library that every component shares: the collections of
  rewrite rules, Go's numeric conventions, the length of a Go map, sums over the
  values of a map, the order in which a Go \<open>range\<close> over a map visits its keys,
  and the last elements of a list.

  A Go map is an \<open>fmap\<close> (finite, with no order).  A \<open>range\<close> over a map visits
  the keys in an order the language leaves open; a loop over a map therefore takes
  the order as an argument, a list that \<open>enumerates\<close> the keys, and the
  theorems hold for every such list.
\<close>

named_theorems op_defs "definitions of the operations of a component"
named_theorems inv_defs "definitions of the invariants of a component"
named_theorems inv_intros "preservation of the invariants by the operations"

section \<open>Integers\<close>

text \<open>
  Go's \<open>int\<close>, \<open>int64\<close> and \<open>time.Duration\<close> are 64-bit two's complement.  They
  are modelled as \<open>int\<close>; where the code computes a product or a sum of values it
  has not bounded, the result goes through \<open>wrap64\<close>.
\<close>

definition wrap64 :: "int \<Rightarrow> int" where
  "wrap64 x = (x + 2 ^ 63) mod 2 ^ 64 - 2 ^ 63"

lemma wrap64_id: "- (2 ^ 63) \<le> x \<Longrightarrow> x < 2 ^ 63 \<Longrightarrow> wrap64 x = x"
  by (simp add: wrap64_def)

lemma wrap64_range: "- (2 ^ 63) \<le> wrap64 x \<and> wrap64 x < 2 ^ 63"
  by (simp add: wrap64_def pos_mod_bound [of "2 ^ 64" "x + 2 ^ 63"])

text \<open>Go's integer division truncates towards zero.\<close>

definition go_quot :: "int \<Rightarrow> int \<Rightarrow> int" where
  "go_quot a b = sgn a * sgn b * (\<bar>a\<bar> div \<bar>b\<bar>)"

lemma go_quot_nonneg: "0 \<le> a \<Longrightarrow> 0 < b \<Longrightarrow> go_quot a b = a div b"
  by (cases "a = 0") (simp_all add: go_quot_def)

text \<open>Go's remainder has the sign of the dividend.\<close>

definition go_rem :: "int \<Rightarrow> int \<Rightarrow> int" where
  "go_rem a b = a - b * go_quot a b"

lemma go_rem_two_eq_0_iff: "go_rem a 2 = 0 \<longleftrightarrow> even a"
proof -
  have "sgn a * (\<bar>a\<bar> div 2) * 2 = a \<longleftrightarrow> even a"
    by (cases "0 \<le> a") (auto simp: sgn_if abs_if elim!: evenE oddE; presburger)+
  then show ?thesis
    by (auto simp: go_rem_def go_quot_def algebra_simps)
qed

section \<open>Go maps\<close>

definition fmsize :: "('k, 'v) fmap \<Rightarrow> int" where
  "fmsize m = int (card (fmdom' m))"

lemma fmsize_empty [simp]: "fmsize fmempty = 0"
  by (simp add: fmsize_def)

lemma fmsize_nonneg [simp]: "0 \<le> fmsize m"
  by (simp add: fmsize_def)

lemma not_pos_fmsize: "\<not> 0 < fmsize m \<Longrightarrow> fmsize m = 0"
  by (simp add: fmsize_def)

lemma fmsize_fmupd:
  "fmsize (fmupd k v m) = (if fmlookup m k = None then fmsize m + 1 else fmsize m)"
proof (cases "fmlookup m k")
  case None
  then have "k \<notin> fmdom' m" by (rule fmdom'_notI)
  with None show ?thesis by (simp add: fmsize_def)
next
  case (Some u)
  then have "k \<in> fmdom' m" by (rule fmdom'I)
  with Some show ?thesis by (simp add: fmsize_def insert_absorb)
qed

lemma fmsize_fmdrop:
  "fmsize (fmdrop k m) = (if fmlookup m k = None then fmsize m else fmsize m - 1)"
proof (cases "fmlookup m k")
  case None
  then have "k \<notin> fmdom' m" by (rule fmdom'_notI)
  with None show ?thesis by (simp add: fmsize_def)
next
  case (Some v)
  then have "k \<in> fmdom' m" by (rule fmdom'I)
  then have "card (fmdom' m) = Suc (card (fmdom' m - {k}))"
    by (intro card.remove finite_fmdom')
  with Some show ?thesis by (simp add: fmsize_def)
qed

lemma fmsize_map [simp]: "fmsize (fmmap f m) = fmsize m"
  by (simp add: fmsize_def)

lemma fmsize_0_iff: "fmsize m = 0 \<longleftrightarrow> m = fmempty"
proof
  assume "fmsize m = 0"
  then have "fmdom' m = {}" by (simp add: fmsize_def)
  then have "fmlookup m x = fmlookup fmempty x" for x
    by (metis empty_iff fmdom'I fmempty_lookup option.exhaust)
  then show "m = fmempty" by (rule fmap_ext)
qed simp

lemma fmupd_same: "fmlookup m k = Some v \<Longrightarrow> fmupd k v m = m"
  by (rule fmap_ext) auto

text \<open>The sum of an integer measure over the values of a map.\<close>

definition fmsum :: "('v \<Rightarrow> int) \<Rightarrow> ('k, 'v) fmap \<Rightarrow> int" where
  "fmsum f m = (\<Sum>k\<in>fmdom' m. f (the (fmlookup m k)))"

lemma fmsum_empty [simp]: "fmsum f fmempty = 0"
  by (simp add: fmsum_def)

lemma fmsum_fmupd_new:
  assumes "fmlookup m k = None"
  shows "fmsum f (fmupd k v m) = fmsum f m + f v"
proof -
  have k: "k \<notin> fmdom' m" using assms by (rule fmdom'_notI)
  have "(\<Sum>x\<in>fmdom' m. f (the (fmlookup (fmupd k v m) x))) = fmsum f m"
    unfolding fmsum_def using k by (intro sum.cong) auto
  with k show ?thesis by (simp add: fmsum_def)
qed

lemma fmsum_fmupd_old:
  assumes "fmlookup m k = Some u"
  shows "fmsum f (fmupd k v m) = fmsum f m - f u + f v"
proof -
  have k: "k \<in> fmdom' m" using assms by (rule fmdom'I)
  have rest: "(\<Sum>x\<in>fmdom' m - {k}. f (the (fmlookup (fmupd k v m) x)))
      = (\<Sum>x\<in>fmdom' m - {k}. f (the (fmlookup m x)))"
    by (intro sum.cong) auto
  have "fmsum f m = f u + (\<Sum>x\<in>fmdom' m - {k}. f (the (fmlookup m x)))"
    unfolding fmsum_def using assms k by (subst sum.remove [of _ k]) auto
  moreover have "fmsum f (fmupd k v m) = f v + (\<Sum>x\<in>fmdom' m - {k}. f (the (fmlookup m x)))"
    unfolding fmsum_def using k rest by (subst sum.remove [of _ k]) (auto simp: insert_absorb)
  ultimately show ?thesis by simp
qed

lemma fmsum_fmupd:
  "fmsum f (fmupd k v m)
     = fmsum f m + f v - (case fmlookup m k of None \<Rightarrow> 0 | Some u \<Rightarrow> f u)"
  by (simp add: fmsum_fmupd_new fmsum_fmupd_old split: option.split)

lemma fmsum_nonneg: "(\<And>v. 0 \<le> f v) \<Longrightarrow> 0 \<le> fmsum f m"
  by (simp add: fmsum_def sum_nonneg)

lemma fmsum_member_le:
  assumes "\<And>v. 0 \<le> f v" and "fmlookup m k = Some u"
  shows "f u \<le> fmsum f m"
proof -
  have "k \<in> fmdom' m" using assms(2) by (rule fmdom'I)
  then have "f (the (fmlookup m k)) \<le> fmsum f m"
    unfolding fmsum_def using assms(1) by (intro member_le_sum) auto
  with assms(2) show ?thesis by simp
qed

lemma fmsum_indicator:
  "fmsum (\<lambda>v. if P v then 1 else 0) m = int (card {k. \<exists>v. fmlookup m k = Some v \<and> P v})"
proof -
  have "{k. \<exists>v. fmlookup m k = Some v \<and> P v} = {k \<in> fmdom' m. P (the (fmlookup m k))}"
    by (auto simp: fmlookup_dom'_iff)
  then show ?thesis
    by (simp add: fmsum_def flip: sum.inter_filter)
qed

section \<open>The order of a range loop over a map\<close>

definition enumerates :: "'k list \<Rightarrow> ('k, 'v) fmap \<Rightarrow> bool" where
  "enumerates ks m \<longleftrightarrow> distinct ks \<and> set ks = fmdom' m"

lemma enumerates_exists: "\<exists>ks. enumerates ks m"
  unfolding enumerates_def using finite_distinct_list [of "fmdom' m"] by auto

lemma enumerates_length: "enumerates ks m \<Longrightarrow> int (length ks) = fmsize m"
  by (auto simp: enumerates_def fmsize_def distinct_card [symmetric])

lemma enumerates_empty [simp]: "enumerates ks fmempty \<longleftrightarrow> ks = []"
  by (auto simp: enumerates_def)

section \<open>The last elements of a list\<close>

definition lastn :: "nat \<Rightarrow> 'a list \<Rightarrow> 'a list" where
  "lastn n xs = drop (length xs - n) xs"

lemma length_lastn [simp]: "length (lastn n xs) = min n (length xs)"
  by (simp add: lastn_def min_def)

lemma lastn_all: "length xs \<le> n \<Longrightarrow> lastn n xs = xs"
  by (simp add: lastn_def)

lemma lastn_lastn_append: "lastn n (lastn n xs @ ys) = lastn n (xs @ ys)"
proof (cases "length xs \<le> n")
  case True
  then show ?thesis by (simp add: lastn_all)
next
  case False
  then show ?thesis
    by (cases "length ys \<le> n") (auto simp: lastn_def algebra_simps)
qed

lemma last_lastn_snoc: "0 < n \<Longrightarrow> last (lastn n (xs @ [x])) = x"
  by (simp add: lastn_def)

lemma lastn_snoc_full:
  "length xs = n \<Longrightarrow> 0 < n \<Longrightarrow> lastn n (xs @ [x]) = tl xs @ [x]"
  by (cases xs) (auto simp: lastn_def)

lemma lastn_snoc_room: "length xs < n \<Longrightarrow> lastn n (xs @ [x]) = xs @ [x]"
  by (simp add: lastn_all)

end
