(* ===== verification/Metrics.thy ===== *)
theory Metrics
  imports Prelude
begin

text \<open>
  The counters and gauges of \<^verbatim>\<open>pkg/metrics/metrics.go\<close>.  Every metric has a Prometheus
  side, created by \<open>init\<close> before \<open>main\<close> runs, and (nine of the twelve) an OTLP
  instrument that is nil until \<open>InitOTLP\<close> has created it.  A nil instrument is
  \<open>None\<close>; a live one is the sum of what has been added to it since it was
  created.  Prometheus values are float64 in Go; the code only ever adds integers
  to them, which is exact up to \<open>2 ^ 53\<close>, so they are \<open>int\<close> here.
\<close>

record metrics =
  activePublishers :: "int option"
  totalPublishers :: "int option"
  activeSubscribers :: "int option"
  totalSubscribers :: "int option"
  packetsReceived :: "int option"
  packetsDispatched :: "int option"
  packetsDropped :: "int option"
  allocatorReservations :: "int option"
  allocatorReservedPairs :: "int option"
  promActivePublishers :: int
  promTotalPublishers :: int
  promActiveSubscribers :: int
  promTotalSubscribers :: int
  promPacketsReceived :: int
  promPacketsDispatched :: int
  promPacketsDropped :: int
  promAllocatorReservations :: int
  promAllocatorReservedPairs :: int
  promForwardedConnections :: int
  promForwardedBytes :: int
  promForwardFailed :: int

text \<open>The state \<open>init\<close> leaves: every Prometheus metric at 0, no OTLP instrument.\<close>

definition metrics_init :: metrics where
  "metrics_init = \<lparr>
     activePublishers = None,
     totalPublishers = None,
     activeSubscribers = None,
     totalSubscribers = None,
     packetsReceived = None,
     packetsDispatched = None,
     packetsDropped = None,
     allocatorReservations = None,
     allocatorReservedPairs = None,
     promActivePublishers = 0,
     promTotalPublishers = 0,
     promActiveSubscribers = 0,
     promTotalSubscribers = 0,
     promPacketsReceived = 0,
     promPacketsDispatched = 0,
     promPacketsDropped = 0,
     promAllocatorReservations = 0,
     promAllocatorReservedPairs = 0,
     promForwardedConnections = 0,
     promForwardedBytes = 0,
     promForwardFailed = 0\<rparr>"

text \<open>\<open>if inst != nil { inst.Add(ctx, d) }\<close>\<close>

definition otel_add :: "int \<Rightarrow> int option \<Rightarrow> int option" where
  "otel_add d inst = map_option (\<lambda>v. v + d) inst"

section \<open>Forwarding\<close>

definition IncForwardedConnections :: "metrics \<Rightarrow> metrics" where
  "IncForwardedConnections m = m\<lparr>promForwardedConnections := promForwardedConnections m + 1\<rparr>"

definition AddForwardedBytes :: "int \<Rightarrow> metrics \<Rightarrow> metrics" where
  "AddForwardedBytes n m = m\<lparr>promForwardedBytes := promForwardedBytes m + n\<rparr>"

definition IncForwardFailed :: "metrics \<Rightarrow> metrics" where
  "IncForwardFailed m = m\<lparr>promForwardFailed := promForwardFailed m + 1\<rparr>"

section \<open>Publishers\<close>

definition IncActivePublishers :: "metrics \<Rightarrow> metrics" where
  "IncActivePublishers m = m\<lparr>activePublishers := otel_add 1 (activePublishers m), promActivePublishers := promActivePublishers m + 1\<rparr>"

definition DecActivePublishers :: "metrics \<Rightarrow> metrics" where
  "DecActivePublishers m = m\<lparr>activePublishers := otel_add (- 1) (activePublishers m), promActivePublishers := promActivePublishers m - 1\<rparr>"

definition AddActivePublishers :: "int \<Rightarrow> metrics \<Rightarrow> metrics" where
  "AddActivePublishers delta m = m\<lparr>activePublishers := otel_add delta (activePublishers m), promActivePublishers := promActivePublishers m + delta\<rparr>"

definition IncTotalPublishers :: "metrics \<Rightarrow> metrics" where
  "IncTotalPublishers m = m\<lparr>totalPublishers := otel_add 1 (totalPublishers m), promTotalPublishers := promTotalPublishers m + 1\<rparr>"

section \<open>Subscribers\<close>

definition IncActiveSubscribers :: "metrics \<Rightarrow> metrics" where
  "IncActiveSubscribers m = m\<lparr>activeSubscribers := otel_add 1 (activeSubscribers m), promActiveSubscribers := promActiveSubscribers m + 1\<rparr>"

definition DecActiveSubscribers :: "metrics \<Rightarrow> metrics" where
  "DecActiveSubscribers m = m\<lparr>activeSubscribers := otel_add (- 1) (activeSubscribers m), promActiveSubscribers := promActiveSubscribers m - 1\<rparr>"

definition AddActiveSubscribers :: "int \<Rightarrow> metrics \<Rightarrow> metrics" where
  "AddActiveSubscribers delta m = m\<lparr>activeSubscribers := otel_add delta (activeSubscribers m), promActiveSubscribers := promActiveSubscribers m + delta\<rparr>"

definition IncTotalSubscribers :: "metrics \<Rightarrow> metrics" where
  "IncTotalSubscribers m = m\<lparr>totalSubscribers := otel_add 1 (totalSubscribers m), promTotalSubscribers := promTotalSubscribers m + 1\<rparr>"

section \<open>Packets\<close>

definition IncPacketsReceived :: "metrics \<Rightarrow> metrics" where
  "IncPacketsReceived m = m\<lparr>packetsReceived := otel_add 1 (packetsReceived m), promPacketsReceived := promPacketsReceived m + 1\<rparr>"

definition IncPacketsDispatched :: "metrics \<Rightarrow> metrics" where
  "IncPacketsDispatched m = m\<lparr>packetsDispatched := otel_add 1 (packetsDispatched m), promPacketsDispatched := promPacketsDispatched m + 1\<rparr>"

definition IncPacketsDropped :: "metrics \<Rightarrow> metrics" where
  "IncPacketsDropped m = m\<lparr>packetsDropped := otel_add 1 (packetsDropped m), promPacketsDropped := promPacketsDropped m + 1\<rparr>"

section \<open>The UDP allocator\<close>

definition IncAllocatorReservations :: "metrics \<Rightarrow> metrics" where
  "IncAllocatorReservations m = m\<lparr>allocatorReservations := otel_add 1 (allocatorReservations m), promAllocatorReservations := promAllocatorReservations m + 1\<rparr>"

definition IncAllocatorReservedPairs :: "metrics \<Rightarrow> metrics" where
  "IncAllocatorReservedPairs m = m\<lparr>allocatorReservedPairs := otel_add 1 (allocatorReservedPairs m), promAllocatorReservedPairs := promAllocatorReservedPairs m + 1\<rparr>"

definition DecAllocatorReservedPairs :: "metrics \<Rightarrow> metrics" where
  "DecAllocatorReservedPairs m = m\<lparr>allocatorReservedPairs := otel_add (- 1) (allocatorReservedPairs m), promAllocatorReservedPairs := promAllocatorReservedPairs m - 1\<rparr>"

text \<open>\<open>SetAllocatorReservedPairs\<close> discards its argument.\<close>

definition SetAllocatorReservedPairs :: "int \<Rightarrow> metrics \<Rightarrow> metrics" where
  "SetAllocatorReservedPairs n m = m"

lemmas metric_defs =
  otel_add_def IncForwardedConnections_def AddForwardedBytes_def IncForwardFailed_def
  IncActivePublishers_def
  DecActivePublishers_def
  AddActivePublishers_def
  IncTotalPublishers_def
  IncActiveSubscribers_def
  DecActiveSubscribers_def
  AddActiveSubscribers_def
  IncTotalSubscribers_def
  IncPacketsReceived_def
  IncPacketsDispatched_def
  IncPacketsDropped_def
  IncAllocatorReservations_def
  IncAllocatorReservedPairs_def
  DecAllocatorReservedPairs_def
  SetAllocatorReservedPairs_def

end
