(* ===== verification/GoChan.thy ===== *)
theory GoChan
  imports Prelude
begin

text \<open>
  Buffered Go channels as the code uses them: created with a capacity, written by
  non-blocking sends (\<open>select\<close> with a \<open>default\<close>), read by non-blocking receives
  and by one \<open>range\<close> loop, and closed once.  What happens to a send on a closed
  channel (a run-time panic), to a negative capacity (a panic) and to a send while
  the reader is parked on the channel (the value is handed to the reader, also when
  the capacity is 0) is part of the model.

  At the end: the contract of a queue that drops its oldest element when it is
  full, which the code writes out three times.
\<close>

record 'a gochan =
  chan_buf :: "'a list"
  chan_cap :: nat
  chan_closed :: bool

text \<open>\<open>make(chan T, n)\<close>; \<open>None\<close> is the panic \<open>makechan: size out of range\<close>.\<close>

definition make_chan :: "int \<Rightarrow> 'a gochan option" where
  "make_chan n = (if n < 0 then None
     else Some \<lparr>chan_buf = [], chan_cap = nat n, chan_closed = False\<rparr>)"

text \<open>\<open>close(ch)\<close>; \<open>None\<close> is the panic \<open>close of closed channel\<close>.\<close>

definition close_chan :: "'a gochan \<Rightarrow> 'a gochan option" where
  "close_chan ch = (if chan_closed ch then None else Some (ch\<lparr>chan_closed := True\<rparr>))"

text \<open>
  \<open>select { case ch <- x: ... default: ... }\<close>.  The first argument says whether a
  goroutine is parked in a receive on the channel.
\<close>

datatype 'a send_outcome =
    Buffered "'a gochan"
  | Handoff
  | WouldBlock
  | SendPanic

definition try_send :: "bool \<Rightarrow> 'a gochan \<Rightarrow> 'a \<Rightarrow> 'a send_outcome" where
  "try_send parked ch x =
     (if chan_closed ch then SendPanic
      else if parked then Handoff
      else if length (chan_buf ch) < chan_cap ch
        then Buffered (ch\<lparr>chan_buf := chan_buf ch @ [x]\<rparr>)
      else WouldBlock)"

text \<open>
  \<open>select { case x := <-ch: ... default: ... }\<close>.  A closed, empty channel yields
  the zero value at once.
\<close>

datatype 'a recv_outcome =
    Received 'a "'a gochan"
  | ZeroValue
  | NotReady

definition try_recv :: "'a gochan \<Rightarrow> 'a recv_outcome" where
  "try_recv ch = (case chan_buf ch of
       x # xs \<Rightarrow> Received x (ch\<lparr>chan_buf := xs\<rparr>)
     | [] \<Rightarrow> if chan_closed ch then ZeroValue else NotReady)"

text \<open>\<open>select { case <-ch: default: }\<close>, where only the effect on the channel counts.\<close>

definition discard_oldest :: "'a gochan \<Rightarrow> 'a gochan" where
  "discard_oldest ch = (case try_recv ch of
       Received _ ch' \<Rightarrow> ch' | ZeroValue \<Rightarrow> ch | NotReady \<Rightarrow> ch)"

lemma discard_oldest_simps [simp]:
  "chan_buf (discard_oldest ch) = tl (chan_buf ch)"
  "chan_cap (discard_oldest ch) = chan_cap ch"
  "chan_closed (discard_oldest ch) = chan_closed ch"
  by (auto simp: discard_oldest_def try_recv_def split: list.splits)

text \<open>The channel holds no more than its capacity.\<close>

definition chan_ok :: "'a gochan \<Rightarrow> bool" where
  "chan_ok ch \<longleftrightarrow> length (chan_buf ch) \<le> chan_cap ch"

lemma chan_ok_discard_oldest [simp]: "chan_ok ch \<Longrightarrow> chan_ok (discard_oldest ch)"
  by (simp add: chan_ok_def)

lemma make_chan_ok: "make_chan n = Some ch \<Longrightarrow> chan_ok ch"
  by (auto simp: make_chan_def chan_ok_def split: if_splits)

lemma make_chan_Some_iff:
  "make_chan n = Some ch \<longleftrightarrow> 0 \<le> n \<and> ch = \<lparr>chan_buf = [], chan_cap = nat n, chan_closed = False\<rparr>"
  by (auto simp: make_chan_def)

lemma try_send_Buffered_iff:
  "try_send parked ch x = Buffered ch' \<longleftrightarrow>
     \<not> chan_closed ch \<and> \<not> parked \<and> length (chan_buf ch) < chan_cap ch
     \<and> ch' = ch\<lparr>chan_buf := chan_buf ch @ [x]\<rparr>"
  by (auto simp: try_send_def)

lemma try_send_WouldBlock_iff:
  "try_send parked ch x = WouldBlock \<longleftrightarrow>
     \<not> chan_closed ch \<and> \<not> parked \<and> chan_cap ch \<le> length (chan_buf ch)"
  by (auto simp: try_send_def)

lemma try_send_SendPanic_iff: "try_send parked ch x = SendPanic \<longleftrightarrow> chan_closed ch"
  by (auto simp: try_send_def)

lemma try_send_Handoff_iff:
  "try_send parked ch x = Handoff \<longleftrightarrow> \<not> chan_closed ch \<and> parked"
  by (auto simp: try_send_def)

lemmas try_send_iffs =
  try_send_Buffered_iff try_send_WouldBlock_iff try_send_SendPanic_iff try_send_Handoff_iff

section \<open>The contract of a drop-oldest queue\<close>

text \<open>
  A live relay prefers a new packet to an old one: adding to a full queue removes
  the oldest element and adds the new one.  A queue that follows the two laws keeps
  its bound, and after any sequence of additions it holds exactly the last
  \<open>capacity\<close> elements, in order.  The queue of a subscriber, the delivery step of
  the dispatcher and the inbound queue of a topic are interpretations.
\<close>

locale drop_oldest_queue =
  fixes enq :: "'q \<Rightarrow> 'a \<Rightarrow> 'q"
    and contents :: "'q \<Rightarrow> 'a list"
    and capacity :: "'q \<Rightarrow> nat"
    and live :: "'q \<Rightarrow> bool"
  assumes enq_room:
      "live q \<Longrightarrow> length (contents q) < capacity q \<Longrightarrow> contents (enq q x) = contents q @ [x]"
    and enq_full:
      "live q \<Longrightarrow> length (contents q) = capacity q \<Longrightarrow> contents (enq q x) = tl (contents q) @ [x]"
    and enq_capacity: "live q \<Longrightarrow> capacity (enq q x) = capacity q"
    and enq_live: "live q \<Longrightarrow> live (enq q x)"
    and live_capacity: "live q \<Longrightarrow> 0 < capacity q"
    and live_bound: "live q \<Longrightarrow> length (contents q) \<le> capacity q"
begin

lemma enq_lastn:
  assumes "live q"
  shows "contents (enq q x) = lastn (capacity q) (contents q @ [x])"
proof (cases "length (contents q) < capacity q")
  case True
  with assms show ?thesis by (simp add: enq_room lastn_snoc_room)
next
  case False
  with assms live_bound have full: "length (contents q) = capacity q"
    by (meson le_neq_implies_less)
  with assms show ?thesis
    by (simp add: enq_full lastn_snoc_full live_capacity)
qed

lemma enq_bound: "live q \<Longrightarrow> length (contents (enq q x)) \<le> capacity (enq q x)"
  by (simp add: enq_lastn enq_capacity)

lemma enq_newest: "live q \<Longrightarrow> last (contents (enq q x)) = x"
  by (simp add: enq_lastn last_lastn_snoc live_capacity)

lemma foldl_enq:
  assumes "live q"
  shows "live (foldl enq q xs)
    \<and> capacity (foldl enq q xs) = capacity q
    \<and> contents (foldl enq q xs) = lastn (capacity q) (contents q @ xs)"
  using assms
proof (induction xs arbitrary: q)
  case Nil
  then show ?case by (simp add: lastn_all live_bound)
next
  case (Cons x xs)
  then have "live (enq q x)" by (simp add: enq_live)
  with Cons show ?case
    by (simp add: enq_capacity enq_lastn lastn_lastn_append)
qed

end

end
