(* ===== verification/Topic.thy ===== *)
theory Topic
  imports Metrics GoChan
begin

text \<open>
  The types and the \<open>Topic\<close> half of \<^verbatim>\<open>pkg/topic/topic.go\<close>: configuration,
  publisher and subscriber sessions with their queues, and the operations of one
  topic.

  Pointers to objects the code does not look into (contexts, gortsplib streams) are
  numbers.  Effects that leave the topic go to the \<open>world\<close>: the metrics, the
  set of cancelled contexts, the set of closed streams, the supply of contexts.
  An operation takes and returns the topic and the world; \<open>None\<close> is a run-time
  panic.

  A topic also carries the state of the two goroutines the code starts for it: the
  dispatcher, and the calls of \<open>Close\<close> that an expired grace timer has started and
  that still wait for the topic's mutex.
\<close>

section \<open>Configuration and sessions\<close>

type_synonym duration = int  \<comment> \<open>nanoseconds\<close>

record config =
  PublishPort :: int
  SubscribePort :: int
  MaxPublishers :: int
  MaxSubscribersPerTopic :: int
  PublisherQueueSize :: int
  SubscriberQueueSize :: int
  PublisherGracePeriod :: duration
  EnableUDP :: bool
  PublisherUDPBase :: int
  SubscriberUDPBase :: int

type_synonym context_ptr = nat
type_synonym stream_ptr = nat

record inbound_packet =
  Track :: int
  Raw :: "8 word list"

record publisher_session =
  pub_id :: string
  pub_ctx :: context_ptr
  pub_cancel :: "context_ptr option"

record subscriber_session =
  sub_id :: string
  sub_ctx :: context_ptr
  sub_cancel :: "context_ptr option"
  queue :: "inbound_packet gochan"

record world =
  wmetrics :: metrics
  cancelled :: "context_ptr set"
  streams_closed :: "stream_ptr set"
  next_ctx :: context_ptr

text \<open>\<open>context.WithCancel(context.Background())\<close> and the call of the cancel function.\<close>

definition new_context :: "world \<Rightarrow> context_ptr \<times> world" where
  "new_context w = (next_ctx w, w\<lparr>next_ctx := Suc (next_ctx w)\<rparr>)"

definition call_cancel :: "context_ptr option \<Rightarrow> world \<Rightarrow> world" where
  "call_cancel c w = (case c of None \<Rightarrow> w | Some p \<Rightarrow> w\<lparr>cancelled := insert p (cancelled w)\<rparr>)"

definition with_metrics :: "(metrics \<Rightarrow> metrics) \<Rightarrow> world \<Rightarrow> world" where
  "with_metrics f w = w\<lparr>wmetrics := f (wmetrics w)\<rparr>"

lemma with_metrics_simps [simp]:
  "wmetrics (with_metrics f w) = f (wmetrics w)"
  "cancelled (with_metrics f w) = cancelled w"
  "streams_closed (with_metrics f w) = streams_closed w"
  "next_ctx (with_metrics f w) = next_ctx w"
  by (simp_all add: with_metrics_def)

lemma call_cancel_simps [simp]:
  "wmetrics (call_cancel c w) = wmetrics w"
  "cancelled (call_cancel c w) = cancelled w \<union> set_option c"
  "streams_closed (call_cancel c w) = streams_closed w"
  "next_ctx (call_cancel c w) = next_ctx w"
  by (simp_all add: call_cancel_def split: option.split)

definition NewPublisherSession :: "string \<Rightarrow> world \<Rightarrow> publisher_session \<times> world" where
  "NewPublisherSession sid w = (let (c, w') = new_context w
     in (\<lparr>pub_id = sid, pub_ctx = c, pub_cancel = Some c\<rparr>, w'))"

text \<open>The channel is made after the context; a negative size panics.\<close>

definition NewSubscriberSession ::
    "string \<Rightarrow> int \<Rightarrow> world \<Rightarrow> (subscriber_session \<times> world) option" where
  "NewSubscriberSession sid queueSize w = (let (c, w') = new_context w
     in case make_chan queueSize of
          None \<Rightarrow> None
        | Some ch \<Rightarrow>
            Some (\<lparr>sub_id = sid, sub_ctx = c, sub_cancel = Some c, queue = ch\<rparr>, w'))"

section \<open>The queue of a subscriber\<close>

text \<open>
  Nothing ever parks on a subscriber's queue: the code only receives from it in a
  \<open>select\<close> with a \<open>default\<close>.  Nothing closes it either.  The result is the
  boolean of \<open>Enqueue\<close>; \<open>None\<close> would be the panic of a send on a closed channel.
\<close>

definition Enqueue ::
    "subscriber_session \<Rightarrow> inbound_packet \<Rightarrow> (bool \<times> subscriber_session) option" where
  "Enqueue s pkt = (case try_send False (queue s) pkt of
       Buffered ch \<Rightarrow> Some (True, s\<lparr>queue := ch\<rparr>)
     | Handoff \<Rightarrow> Some (True, s)
     | SendPanic \<Rightarrow> None
     | WouldBlock \<Rightarrow>
         (let ch' = discard_oldest (queue s) in
          case try_send False ch' pkt of
            Buffered ch \<Rightarrow> Some (True, s\<lparr>queue := ch\<rparr>)
          | Handoff \<Rightarrow> Some (True, s\<lparr>queue := ch'\<rparr>)
          | SendPanic \<Rightarrow> None
          | WouldBlock \<Rightarrow> Some (False, s\<lparr>queue := ch'\<rparr>)))"

definition Dequeue ::
    "subscriber_session \<Rightarrow> (inbound_packet option \<times> bool) \<times> subscriber_session" where
  "Dequeue s = (case try_recv (queue s) of
       Received pkt ch \<Rightarrow> ((Some pkt, True), s\<lparr>queue := ch\<rparr>)
     | ZeroValue \<Rightarrow> ((None, True), s)
     | NotReady \<Rightarrow> ((None, False), s))"

section \<open>Topics\<close>

datatype timer = Armed duration | Expired

datatype dispatcher =
    Looping                   \<comment> \<open>about to receive from the inbound channel\<close>
  | Parked                    \<comment> \<open>blocked in the receive\<close>
  | Busy inbound_packet       \<comment> \<open>holds a packet, fan-out not done\<close>
  | Exited                    \<comment> \<open>the channel was closed and drained\<close>

record topic =
  t_name :: string
  publisher :: "publisher_session option"
  stream :: "stream_ptr option"
  subscribers :: "(string, subscriber_session) fmap"
  inch :: "inbound_packet gochan"
  t_cfg :: config
  closed :: bool
  graceTimer :: "timer option"
  dispatcher :: dispatcher
  pendingCloses :: nat

definition NewTopic :: "string \<Rightarrow> config \<Rightarrow> topic option" where
  "NewTopic name cfg = (case make_chan (PublisherQueueSize cfg) of
       None \<Rightarrow> None
     | Some ch \<Rightarrow> Some \<lparr>t_name = name, publisher = None, stream = None,
         subscribers = fmempty, inch = ch, t_cfg = cfg, closed = False,
         graceTimer = None, dispatcher = Looping, pendingCloses = 0\<rparr>)"

definition HasPublisher :: "topic \<Rightarrow> bool" where
  "HasPublisher t \<longleftrightarrow> publisher t \<noteq> None"

text \<open>
  Stopping a timer that has already expired has no effect on the \<open>Close\<close> it
  started: \<open>pendingCloses\<close> stays.
\<close>

definition SetPublisher :: "publisher_session \<Rightarrow> topic \<Rightarrow> topic" where
  "SetPublisher p t = t\<lparr>publisher := Some p, graceTimer := None\<rparr>"

definition SetStream :: "stream_ptr option \<Rightarrow> topic \<Rightarrow> topic" where
  "SetStream st t = t\<lparr>stream := st\<rparr>"

definition Stream :: "topic \<Rightarrow> stream_ptr option" where
  "Stream t = stream t"

definition close_stream :: "stream_ptr option \<Rightarrow> world \<Rightarrow> world" where
  "close_stream st w = (case st of
       None \<Rightarrow> w
     | Some p \<Rightarrow> w\<lparr>streams_closed := insert p (streams_closed w)\<rparr>)"

definition RemovePublisher :: "topic \<Rightarrow> world \<Rightarrow> topic \<times> world" where
  "RemovePublisher t w = (case publisher t of
       None \<Rightarrow> (t, w)
     | Some p \<Rightarrow>
         (let w1 = call_cancel (pub_cancel p) w;
              t1 = t\<lparr>publisher := None\<rparr>;
              w2 = close_stream (stream t1) w1;
              t2 = t1\<lparr>stream := None\<rparr>
          in (t2\<lparr>graceTimer := Some (Armed (PublisherGracePeriod (t_cfg t2)))\<rparr>, w2)))"

definition PublisherID :: "topic \<Rightarrow> string" where
  "PublisherID t = (case publisher t of None \<Rightarrow> [] | Some p \<Rightarrow> pub_id p)"

definition AddSubscriber :: "subscriber_session \<Rightarrow> topic \<Rightarrow> topic" where
  "AddSubscriber s t = t\<lparr>subscribers := fmupd (sub_id s) s (subscribers t)\<rparr>"

definition RemoveSubscriber :: "string \<Rightarrow> topic \<Rightarrow> world \<Rightarrow> topic \<times> world" where
  "RemoveSubscriber sid t w = (case fmlookup (subscribers t) sid of
       None \<Rightarrow> (t, w)
     | Some s \<Rightarrow> (t\<lparr>subscribers := fmdrop sid (subscribers t)\<rparr>, call_cancel (sub_cancel s) w))"

text \<open>The loop of \<open>Close\<close> that cancels the subscribers, in the order \<open>ids\<close>.\<close>

fun cancel_subscribers ::
    "string list \<Rightarrow> (string, subscriber_session) fmap \<Rightarrow> world \<Rightarrow> world" where
  "cancel_subscribers [] subs w = w"
| "cancel_subscribers (sid # ids) subs w =
     cancel_subscribers ids subs
       (case fmlookup subs sid of None \<Rightarrow> w | Some s \<Rightarrow> call_cancel (sub_cancel s) w)"

text \<open>Closing the inbound channel wakes a parked dispatcher.\<close>

definition Close :: "string list \<Rightarrow> topic \<Rightarrow> world \<Rightarrow> (topic \<times> world) option" where
  "Close ids t w =
     (if closed t then Some (t, w)
      else
        let t1 = t\<lparr>closed := True\<rparr>;
            w1 = (case publisher t1 of None \<Rightarrow> w | Some p \<Rightarrow> call_cancel (pub_cancel p) w);
            w2 = cancel_subscribers ids (subscribers t1) w1;
            removed = fmsize (subscribers t1);
            w3 = (if 0 < removed then with_metrics (AddActiveSubscribers (- removed)) w2 else w2)
        in case close_chan (inch t1) of
             None \<Rightarrow> None
           | Some ch \<Rightarrow>
               Some (t1\<lparr>inch := ch, subscribers := fmempty,
                        dispatcher := (if dispatcher t1 = Parked then Looping else dispatcher t1)\<rparr>,
                     w3))"

section \<open>The dispatcher\<close>

text \<open>
  The body of the fan-out loop for one subscriber: the same three selects as
  \<open>Enqueue\<close>, written out again.  The boolean says that the packet was dropped.
\<close>

definition deliver ::
    "inbound_packet \<Rightarrow> subscriber_session \<Rightarrow> (subscriber_session \<times> bool) option" where
  "deliver pkt s = (case try_send False (queue s) pkt of
       Buffered ch \<Rightarrow> Some (s\<lparr>queue := ch\<rparr>, False)
     | Handoff \<Rightarrow> Some (s, False)
     | SendPanic \<Rightarrow> None
     | WouldBlock \<Rightarrow>
         (let ch' = discard_oldest (queue s) in
          case try_send False ch' pkt of
            Buffered ch \<Rightarrow> Some (s\<lparr>queue := ch\<rparr>, False)
          | Handoff \<Rightarrow> Some (s\<lparr>queue := ch'\<rparr>, False)
          | SendPanic \<Rightarrow> None
          | WouldBlock \<Rightarrow> Some (s\<lparr>queue := ch'\<rparr>, True)))"

text \<open>The loop over the subscribers, in the order \<open>ids\<close>.\<close>

fun fanout ::
    "string list \<Rightarrow> inbound_packet \<Rightarrow> (string, subscriber_session) fmap \<Rightarrow> world
      \<Rightarrow> ((string, subscriber_session) fmap \<times> world) option" where
  "fanout [] pkt subs w = Some (subs, w)"
| "fanout (sid # ids) pkt subs w = (case fmlookup subs sid of
       None \<Rightarrow> fanout ids pkt subs w
     | Some s \<Rightarrow> (case deliver pkt s of
           None \<Rightarrow> None
         | Some (s', dropped) \<Rightarrow>
             fanout ids pkt (fmupd sid s' subs)
               (if dropped then with_metrics IncPacketsDropped w else w)))"

text \<open>
  One turn of \<open>for pkt := range t.in\<close> is two steps: the receive, which may park the
  goroutine or end the loop, and the body.
\<close>

definition dispatcher_receive :: "topic \<Rightarrow> topic" where
  "dispatcher_receive t = (case dispatcher t of
       Looping \<Rightarrow> (case try_recv (inch t) of
           Received pkt ch \<Rightarrow> t\<lparr>inch := ch, dispatcher := Busy pkt\<rparr>
         | ZeroValue \<Rightarrow> t\<lparr>dispatcher := Exited\<rparr>
         | NotReady \<Rightarrow> t\<lparr>dispatcher := Parked\<rparr>)
     | _ \<Rightarrow> t)"

definition dispatcher_body :: "string list \<Rightarrow> topic \<Rightarrow> world \<Rightarrow> (topic \<times> world) option" where
  "dispatcher_body ids t w = (case dispatcher t of
       Busy pkt \<Rightarrow>
         (case fanout ids pkt (subscribers t) (with_metrics IncPacketsDispatched w) of
            None \<Rightarrow> None
          | Some (subs, w') \<Rightarrow> Some (t\<lparr>subscribers := subs, dispatcher := Looping\<rparr>, w'))
     | _ \<Rightarrow> Some (t, w))"

section \<open>The grace timer\<close>

text \<open>The run-time's timer expires and starts a goroutine that calls \<open>Close\<close>.\<close>

definition timer_fire :: "topic \<Rightarrow> topic" where
  "timer_fire t = (case graceTimer t of
       Some (Armed d) \<Rightarrow> t\<lparr>graceTimer := Some Expired, pendingCloses := Suc (pendingCloses t)\<rparr>
     | _ \<Rightarrow> t)"

definition run_pending_close :: "string list \<Rightarrow> topic \<Rightarrow> world \<Rightarrow> (topic \<times> world) option" where
  "run_pending_close ids t w = (case pendingCloses t of
       0 \<Rightarrow> Some (t, w)
     | Suc n \<Rightarrow> Close ids (t\<lparr>pendingCloses := n\<rparr>) w)"

end
