(* ===== verification/TopicProps.thy ===== *)
theory TopicProps
  imports Topic
begin

text \<open>
  What the operations of a topic guarantee: the subscriber queues follow the
  drop-oldest contract, the fan-out does not depend on the order of the range loop,
  and every operation keeps the invariant of a topic, which rules out the panics.
\<close>

section \<open>Subscriber queues\<close>

text \<open>A queue nobody has closed; with a positive capacity it never refuses a packet.\<close>

definition sub_ok :: "subscriber_session \<Rightarrow> bool" where [inv_defs]:
  "sub_ok s \<longleftrightarrow> chan_ok (queue s) \<and> \<not> chan_closed (queue s)"

definition sub_live :: "subscriber_session \<Rightarrow> bool" where
  "sub_live s \<longleftrightarrow> sub_ok s \<and> 0 < chan_cap (queue s)"

lemma Enqueue_room:
  "sub_ok s \<Longrightarrow> length (chan_buf (queue s)) < chan_cap (queue s) \<Longrightarrow>
   Enqueue s pkt = Some (True, s\<lparr>queue := (queue s)\<lparr>chan_buf := chan_buf (queue s) @ [pkt]\<rparr>\<rparr>)"
  by (simp add: Enqueue_def try_send_def sub_ok_def)

lemma Enqueue_full:
  "sub_live s \<Longrightarrow> length (chan_buf (queue s)) = chan_cap (queue s) \<Longrightarrow>
   Enqueue s pkt
     = Some (True, s\<lparr>queue := (queue s)\<lparr>chan_buf := tl (chan_buf (queue s)) @ [pkt]\<rparr>\<rparr>)"
  by (auto simp: Enqueue_def try_send_def sub_ok_def sub_live_def Let_def
      intro!: gochan.equality subscriber_session.equality)

lemma Enqueue_no_capacity:
  "sub_ok s \<Longrightarrow> chan_cap (queue s) = 0 \<Longrightarrow> Enqueue s pkt = Some (False, s)"
  by (auto simp: Enqueue_def try_send_def sub_ok_def chan_ok_def Let_def
      intro!: gochan.equality subscriber_session.equality)

lemma sub_ok_cases:
  assumes "sub_ok s"
  obtains (room) "length (chan_buf (queue s)) < chan_cap (queue s)"
    | (full) "sub_live s" "length (chan_buf (queue s)) = chan_cap (queue s)"
    | (none) "chan_cap (queue s) = 0" "chan_buf (queue s) = []"
proof (cases "length (chan_buf (queue s)) < chan_cap (queue s)")
  case True
  then show ?thesis by (rule room)
next
  case False
  with assms have eq: "length (chan_buf (queue s)) = chan_cap (queue s)"
    by (simp add: sub_ok_def chan_ok_def)
  show ?thesis
  proof (cases "chan_cap (queue s) = 0")
    case True
    with eq show ?thesis by (intro none) auto
  next
    case False
    with assms eq show ?thesis by (intro full) (auto simp: sub_live_def)
  qed
qed

text \<open>The dispatcher's copy of the three selects does what \<open>Enqueue\<close> does.\<close>

lemma deliver_eq_Enqueue:
  "deliver pkt s = map_option (\<lambda>(ok, s'). (s', \<not> ok)) (Enqueue s pkt)"
  by (simp add: deliver_def Enqueue_def Let_def split: send_outcome.splits)

definition enq_sub :: "subscriber_session \<Rightarrow> inbound_packet \<Rightarrow> subscriber_session" where
  "enq_sub s pkt = (case Enqueue s pkt of None \<Rightarrow> s | Some (_, s') \<Rightarrow> s')"

lemma Enqueue_enq_sub:
  "sub_ok s \<Longrightarrow> Enqueue s pkt = Some (0 < chan_cap (queue s), enq_sub s pkt)"
  by (cases s rule: sub_ok_cases)
     (auto simp: enq_sub_def Enqueue_room Enqueue_full Enqueue_no_capacity sub_live_def)

lemma deliver_enq_sub:
  "sub_ok s \<Longrightarrow> deliver pkt s = Some (enq_sub s pkt, chan_cap (queue s) = 0)"
  by (simp add: deliver_eq_Enqueue Enqueue_enq_sub)

lemma enq_sub_simps [simp]:
  assumes "sub_ok s"
  shows "sub_ok (enq_sub s pkt)" "sub_id (enq_sub s pkt) = sub_id s"
    "sub_ctx (enq_sub s pkt) = sub_ctx s" "sub_cancel (enq_sub s pkt) = sub_cancel s"
    "chan_cap (queue (enq_sub s pkt)) = chan_cap (queue s)"
  using assms
  by (cases s rule: sub_ok_cases;
      auto simp: enq_sub_def Enqueue_room Enqueue_full Enqueue_no_capacity sub_ok_def chan_ok_def
        sub_live_def)+

interpretation subq: drop_oldest_queue enq_sub "\<lambda>s. chan_buf (queue s)"
  "\<lambda>s. chan_cap (queue s)" sub_live
proof unfold_locales
  fix q :: subscriber_session and x
  assume q: "sub_live q"
  then have ok: "sub_ok q" by (simp add: sub_live_def)
  show "length (chan_buf (queue q)) < chan_cap (queue q)
      \<Longrightarrow> chan_buf (queue (enq_sub q x)) = chan_buf (queue q) @ [x]"
    using ok by (simp add: enq_sub_def Enqueue_room)
  show "length (chan_buf (queue q)) = chan_cap (queue q)
      \<Longrightarrow> chan_buf (queue (enq_sub q x)) = tl (chan_buf (queue q)) @ [x]"
    using q by (simp add: enq_sub_def Enqueue_full)
  show "chan_cap (queue (enq_sub q x)) = chan_cap (queue q)" using ok by simp
  show "sub_live (enq_sub q x)" using q ok by (simp add: sub_live_def)
  show "0 < chan_cap (queue q)" using q by (simp add: sub_live_def)
  show "length (chan_buf (queue q)) \<le> chan_cap (queue q)"
    using ok by (simp add: sub_ok_def chan_ok_def)
qed

section \<open>The fan-out loop\<close>

definition subs_ok :: "(string, subscriber_session) fmap \<Rightarrow> bool" where [inv_defs]:
  "subs_ok subs \<longleftrightarrow> (\<forall>k s. fmlookup subs k = Some s \<longrightarrow> sub_id s = k \<and> sub_ok s)"

text \<open>How many of the subscribers named in the list have no room for any packet.\<close>

definition no_capacity :: "(string, subscriber_session) fmap \<Rightarrow> string \<Rightarrow> bool" where
  "no_capacity subs k = (case fmlookup subs k of
       None \<Rightarrow> False | Some s \<Rightarrow> chan_cap (queue s) = 0)"

definition count_drops :: "nat \<Rightarrow> world \<Rightarrow> world" where
  "count_drops n w = (with_metrics IncPacketsDropped ^^ n) w"

lemma count_drops_simps [simp]:
  "count_drops 0 w = w"
  "count_drops (Suc n) w = count_drops n (with_metrics IncPacketsDropped w)"
  "cancelled (count_drops n w) = cancelled w"
  "streams_closed (count_drops n w) = streams_closed w"
  "next_ctx (count_drops n w) = next_ctx w"
proof -
  show "count_drops (Suc n) w = count_drops n (with_metrics IncPacketsDropped w)"
    by (simp add: count_drops_def funpow_swap1)
qed (induction n; simp add: count_drops_def)+

lemma count_drops_metrics [simp]:
  "promPacketsDropped (wmetrics (count_drops n w)) = promPacketsDropped (wmetrics w) + int n"
  "promPacketsDispatched (wmetrics (count_drops n w)) = promPacketsDispatched (wmetrics w)"
  "promPacketsReceived (wmetrics (count_drops n w)) = promPacketsReceived (wmetrics w)"
  "promActiveSubscribers (wmetrics (count_drops n w)) = promActiveSubscribers (wmetrics w)"
  "promActivePublishers (wmetrics (count_drops n w)) = promActivePublishers (wmetrics w)"
  by (induction n; simp add: count_drops_def metric_defs)+

lemma fanout_prefix:
  assumes "subs_ok subs" and "distinct ids" and "set ids \<subseteq> fmdom' subs"
  shows "fanout ids pkt subs w
    = Some (fmmap_keys (\<lambda>k s. if k \<in> set ids then enq_sub s pkt else s) subs,
            count_drops (length (filter (no_capacity subs) ids)) w)"
  using assms
proof (induction ids arbitrary: subs w)
  case Nil
  have "fmmap_keys (\<lambda>k s. s) subs = subs"
    by (rule fmap_ext) (simp add: option.map_ident)
  then show ?case by simp
next
  case (Cons sid ids)
  from Cons.prems obtain s where s: "fmlookup subs sid = Some s"
    by (auto simp: fmlookup_dom'_iff)
  with Cons.prems have ok: "sub_ok s" by (auto simp: subs_ok_def)
  let ?subs = "fmupd sid (enq_sub s pkt) subs"
  have "subs_ok ?subs" using Cons.prems(1) s ok by (auto simp: subs_ok_def)
  moreover have "set ids \<subseteq> fmdom' ?subs" and "distinct ids" using Cons.prems by auto
  moreover have "filter (no_capacity ?subs) ids = filter (no_capacity subs) ids"
    using Cons.prems(2) by (intro filter_cong) (auto simp: no_capacity_def)
  moreover have "fmmap_keys (\<lambda>k s. if k \<in> set ids then enq_sub s pkt else s) ?subs
      = fmmap_keys (\<lambda>k s. if k \<in> set (sid # ids) then enq_sub s pkt else s) subs"
    using s Cons.prems(2) by (intro fmap_ext) auto
  moreover have "no_capacity subs sid \<longleftrightarrow> chan_cap (queue s) = 0"
    using s by (simp add: no_capacity_def)
  ultimately show ?case
    using s ok Cons.IH [of ?subs] by (simp add: deliver_enq_sub)
qed

text \<open>
  The whole loop: every subscriber gets the packet, and the number of drops is the
  number of subscribers without any capacity, whatever the order.
\<close>

definition zero_capacity_subs :: "(string, subscriber_session) fmap \<Rightarrow> nat" where
  "zero_capacity_subs subs = card {k. no_capacity subs k}"

lemma fanout_all:
  assumes "subs_ok subs" and "enumerates ids subs"
  shows "fanout ids pkt subs w
    = Some (fmmap (\<lambda>s. enq_sub s pkt) subs, count_drops (zero_capacity_subs subs) w)"
proof -
  have ids: "distinct ids" "set ids = fmdom' subs"
    using assms(2) by (auto simp: enumerates_def)
  have "fmmap_keys (\<lambda>k s. if k \<in> set ids then enq_sub s pkt else s) subs
      = fmmap (\<lambda>s. enq_sub s pkt) subs"
    using ids by (intro fmap_ext) (auto simp: fmlookup_dom'_iff intro: option.map_cong)
  moreover have "{k. no_capacity subs k} = set (filter (no_capacity subs) ids)"
    using ids by (auto simp: no_capacity_def fmlookup_dom'_iff split: option.splits)
  then have "length (filter (no_capacity subs) ids) = zero_capacity_subs subs"
    using ids by (simp add: zero_capacity_subs_def distinct_card flip: set_filter)
  ultimately show ?thesis
    using fanout_prefix [OF assms(1) ids(1)] ids(2) by simp
qed

section \<open>The invariant of a topic\<close>

definition topic_ok :: "topic \<Rightarrow> bool" where [inv_defs]:
  "topic_ok t \<longleftrightarrow>
     chan_ok (inch t)
   \<and> chan_closed (inch t) = closed t
   \<and> (publisher t \<noteq> None \<longrightarrow> graceTimer t = None)
   \<and> (dispatcher t = Parked \<longrightarrow> chan_buf (inch t) = [] \<and> \<not> closed t)
   \<and> (dispatcher t = Exited \<longrightarrow> chan_buf (inch t) = [] \<and> closed t)
   \<and> subs_ok (subscribers t)"

lemma topic_ok_NewTopic [inv_intros]: "NewTopic name cfg = Some t \<Longrightarrow> topic_ok t"
  by (auto simp: NewTopic_def topic_ok_def subs_ok_def make_chan_Some_iff chan_ok_def
      split: option.splits)

lemma topic_ok_SetPublisher [inv_intros]: "topic_ok t \<Longrightarrow> topic_ok (SetPublisher p t)"
  by (simp add: SetPublisher_def topic_ok_def)

lemma topic_ok_SetStream [inv_intros]: "topic_ok t \<Longrightarrow> topic_ok (SetStream st t)"
  by (simp add: SetStream_def topic_ok_def)

lemma topic_ok_RemovePublisher [inv_intros]:
  "topic_ok t \<Longrightarrow> topic_ok (fst (RemovePublisher t w))"
  by (simp add: RemovePublisher_def topic_ok_def Let_def split: option.split)

lemma topic_ok_AddSubscriber [inv_intros]:
  "topic_ok t \<Longrightarrow> sub_ok s \<Longrightarrow> topic_ok (AddSubscriber s t)"
  by (simp add: AddSubscriber_def topic_ok_def subs_ok_def)

lemma topic_ok_RemoveSubscriber [inv_intros]:
  "topic_ok t \<Longrightarrow> topic_ok (fst (RemoveSubscriber sid t w))"
  by (simp add: RemoveSubscriber_def topic_ok_def subs_ok_def split: option.split)

lemma topic_ok_timer_fire [inv_intros]: "topic_ok t \<Longrightarrow> topic_ok (timer_fire t)"
  by (auto simp: timer_fire_def topic_ok_def split: option.split timer.split)

lemma topic_ok_dispatcher_receive [inv_intros]:
  "topic_ok t \<Longrightarrow> topic_ok (dispatcher_receive t)"
  by (auto simp: dispatcher_receive_def topic_ok_def try_recv_def chan_ok_def
      split: dispatcher.split recv_outcome.splits list.splits if_splits)

lemma subs_ok_fmmap: "subs_ok subs \<Longrightarrow> subs_ok (fmmap (\<lambda>s. enq_sub s pkt) subs)"
  by (auto simp: subs_ok_def)

lemma dispatcher_body_Busy:
  assumes "topic_ok t" and "enumerates ids (subscribers t)" and "dispatcher t = Busy pkt"
  shows "dispatcher_body ids t w
    = Some (t\<lparr>subscribers := fmmap (\<lambda>s. enq_sub s pkt) (subscribers t), dispatcher := Looping\<rparr>,
            count_drops (zero_capacity_subs (subscribers t))
              (with_metrics IncPacketsDispatched w))"
  using assms by (simp add: dispatcher_body_def topic_ok_def fanout_all)

lemma dispatcher_body_ok [inv_intros]:
  assumes "topic_ok t" and "enumerates ids (subscribers t)"
  shows "\<exists>t' w'. dispatcher_body ids t w = Some (t', w') \<and> topic_ok t'"
proof (cases "dispatcher t")
  case (Busy pkt)
  with assms show ?thesis
    by (auto simp: dispatcher_body_Busy topic_ok_def subs_ok_fmmap)
qed (use assms in \<open>simp_all add: dispatcher_body_def\<close>)

subsection \<open>Closing\<close>

lemma cancel_subscribers_simps [simp]:
  "wmetrics (cancel_subscribers ids subs w) = wmetrics w"
  "streams_closed (cancel_subscribers ids subs w) = streams_closed w"
  "next_ctx (cancel_subscribers ids subs w) = next_ctx w"
  by (induction ids arbitrary: w; simp split: option.split)+

lemma cancelled_cancel_subscribers:
  "cancelled (cancel_subscribers ids subs w) = cancelled w
     \<union> {c. \<exists>k s. k \<in> set ids \<and> fmlookup subs k = Some s \<and> sub_cancel s = Some c}"
proof (induction ids arbitrary: w)
  case Nil
  then show ?case by simp
next
  case (Cons sid ids)
  then show ?case
    by (cases "fmlookup subs sid") (auto simp: set_eq_iff)
qed

text \<open>What \<open>Close\<close> does to an open topic, in one equation.\<close>

definition closed_topic :: "topic \<Rightarrow> topic" where
  "closed_topic t = t\<lparr>closed := True, inch := (inch t)\<lparr>chan_closed := True\<rparr>,
     subscribers := fmempty,
     dispatcher := (if dispatcher t = Parked then Looping else dispatcher t)\<rparr>"

definition pub_contexts :: "topic \<Rightarrow> context_ptr set" where
  "pub_contexts t = {c. \<exists>p. publisher t = Some p \<and> pub_cancel p = Some c}"

definition sub_contexts :: "topic \<Rightarrow> context_ptr set" where
  "sub_contexts t
     = {c. \<exists>k s. fmlookup (subscribers t) k = Some s \<and> sub_cancel s = Some c}"

definition closed_world :: "topic \<Rightarrow> world \<Rightarrow> world" where
  "closed_world t w = w\<lparr>cancelled := cancelled w \<union> pub_contexts t \<union> sub_contexts t,
     wmetrics := (if 0 < fmsize (subscribers t)
       then AddActiveSubscribers (- fmsize (subscribers t)) (wmetrics w) else wmetrics w)\<rparr>"

lemma Close_closed: "closed t \<Longrightarrow> Close ids t w = Some (t, w)"
  by (simp add: Close_def)

lemma Close_open:
  assumes "topic_ok t" and "\<not> closed t" and "enumerates ids (subscribers t)"
  shows "Close ids t w = Some (closed_topic t, closed_world t w)"
proof -
  have "set ids = fmdom' (subscribers t)" using assms(3) by (simp add: enumerates_def)
  then have subs: "cancelled (cancel_subscribers ids (subscribers t) v)
      = cancelled v \<union> sub_contexts t" for v
    by (auto simp: cancelled_cancel_subscribers sub_contexts_def fmlookup_dom'_iff)
  have "cancelled (case publisher t of None \<Rightarrow> w | Some p \<Rightarrow> call_cancel (pub_cancel p) w)
      = cancelled w \<union> pub_contexts t"
    by (auto simp: pub_contexts_def split: option.split)
  with assms(1,2) subs show ?thesis
    by (auto simp: Close_def Let_def close_chan_def topic_ok_def closed_topic_def closed_world_def
        intro!: world.equality split: option.split)
qed

lemma topic_ok_closed_topic: "topic_ok t \<Longrightarrow> topic_ok (closed_topic t)"
  by (auto simp: topic_ok_def closed_topic_def chan_ok_def subs_ok_def)

lemma Close_ok [inv_intros]:
  assumes "topic_ok t" and "enumerates ids (subscribers t)"
  shows "\<exists>t' w'. Close ids t w = Some (t', w') \<and> topic_ok t' \<and> closed t'"
proof (cases "closed t")
  case True
  with assms show ?thesis by (simp add: Close_closed)
next
  case False
  with assms show ?thesis
    by (simp add: Close_open topic_ok_closed_topic) (simp add: closed_topic_def)
qed

lemma topic_ok_pendingCloses [simp]: "topic_ok (t\<lparr>pendingCloses := n\<rparr>) = topic_ok t"
  by (simp add: topic_ok_def)

lemma run_pending_close_ok [inv_intros]:
  assumes "topic_ok t" and "enumerates ids (subscribers t)"
  shows "\<exists>t' w'. run_pending_close ids t w = Some (t', w') \<and> topic_ok t'"
proof (cases "pendingCloses t")
  case 0
  with assms show ?thesis by (simp add: run_pending_close_def)
next
  case (Suc n)
  have "\<exists>t' w'. Close ids (t\<lparr>pendingCloses := n\<rparr>) w = Some (t', w') \<and> topic_ok t' \<and> closed t'"
    using assms by (intro Close_ok) auto
  with Suc show ?thesis by (auto simp: run_pending_close_def)
qed

section \<open>Frames: the fields an operation leaves alone\<close>

lemma SetPublisher_frame [simp]:
  "t_name (SetPublisher p t) = t_name t" "stream (SetPublisher p t) = stream t"
  "subscribers (SetPublisher p t) = subscribers t" "inch (SetPublisher p t) = inch t"
  "t_cfg (SetPublisher p t) = t_cfg t" "closed (SetPublisher p t) = closed t"
  "dispatcher (SetPublisher p t) = dispatcher t"
  "pendingCloses (SetPublisher p t) = pendingCloses t"
  "publisher (SetPublisher p t) = Some p" "graceTimer (SetPublisher p t) = None"
  by (simp_all add: SetPublisher_def)

lemma RemovePublisher_frame [simp]:
  "t_name (fst (RemovePublisher t w)) = t_name t"
  "subscribers (fst (RemovePublisher t w)) = subscribers t"
  "inch (fst (RemovePublisher t w)) = inch t"
  "t_cfg (fst (RemovePublisher t w)) = t_cfg t"
  "closed (fst (RemovePublisher t w)) = closed t"
  "dispatcher (fst (RemovePublisher t w)) = dispatcher t"
  "pendingCloses (fst (RemovePublisher t w)) = pendingCloses t"
  "publisher (fst (RemovePublisher t w)) = None"
  "wmetrics (snd (RemovePublisher t w)) = wmetrics w"
  by (simp_all add: RemovePublisher_def close_stream_def Let_def split: option.split)

lemma RemoveSubscriber_frame [simp]:
  "t_name (fst (RemoveSubscriber i t w)) = t_name t"
  "publisher (fst (RemoveSubscriber i t w)) = publisher t"
  "stream (fst (RemoveSubscriber i t w)) = stream t"
  "inch (fst (RemoveSubscriber i t w)) = inch t"
  "t_cfg (fst (RemoveSubscriber i t w)) = t_cfg t"
  "closed (fst (RemoveSubscriber i t w)) = closed t"
  "graceTimer (fst (RemoveSubscriber i t w)) = graceTimer t"
  "dispatcher (fst (RemoveSubscriber i t w)) = dispatcher t"
  "pendingCloses (fst (RemoveSubscriber i t w)) = pendingCloses t"
  "subscribers (fst (RemoveSubscriber i t w)) = fmdrop i (subscribers t)"
  "wmetrics (snd (RemoveSubscriber i t w)) = wmetrics w"
proof -
  show "subscribers (fst (RemoveSubscriber i t w)) = fmdrop i (subscribers t)"
    by (simp add: RemoveSubscriber_def fmdrop_idle' fmdom'_notI split: option.split)
qed (simp_all add: RemoveSubscriber_def split: option.split)

lemma AddSubscriber_frame [simp]:
  "t_name (AddSubscriber s t) = t_name t" "publisher (AddSubscriber s t) = publisher t"
  "stream (AddSubscriber s t) = stream t" "inch (AddSubscriber s t) = inch t"
  "t_cfg (AddSubscriber s t) = t_cfg t" "closed (AddSubscriber s t) = closed t"
  "graceTimer (AddSubscriber s t) = graceTimer t"
  "dispatcher (AddSubscriber s t) = dispatcher t"
  "pendingCloses (AddSubscriber s t) = pendingCloses t"
  "subscribers (AddSubscriber s t) = fmupd (sub_id s) s (subscribers t)"
  by (simp_all add: AddSubscriber_def)

lemma SetStream_frame [simp]:
  "t_name (SetStream st t) = t_name t" "publisher (SetStream st t) = publisher t"
  "stream (SetStream st t) = st" "inch (SetStream st t) = inch t"
  "t_cfg (SetStream st t) = t_cfg t" "closed (SetStream st t) = closed t"
  "graceTimer (SetStream st t) = graceTimer t"
  "dispatcher (SetStream st t) = dispatcher t"
  "pendingCloses (SetStream st t) = pendingCloses t"
  "subscribers (SetStream st t) = subscribers t"
  by (simp_all add: SetStream_def)

lemma timer_fire_frame [simp]:
  "t_name (timer_fire t) = t_name t" "publisher (timer_fire t) = publisher t"
  "stream (timer_fire t) = stream t" "inch (timer_fire t) = inch t"
  "t_cfg (timer_fire t) = t_cfg t" "closed (timer_fire t) = closed t"
  "dispatcher (timer_fire t) = dispatcher t" "subscribers (timer_fire t) = subscribers t"
  by (simp_all add: timer_fire_def split: option.split timer.split)

lemma dispatcher_receive_frame [simp]:
  "t_name (dispatcher_receive t) = t_name t"
  "publisher (dispatcher_receive t) = publisher t"
  "stream (dispatcher_receive t) = stream t"
  "subscribers (dispatcher_receive t) = subscribers t"
  "t_cfg (dispatcher_receive t) = t_cfg t" "closed (dispatcher_receive t) = closed t"
  "graceTimer (dispatcher_receive t) = graceTimer t"
  "pendingCloses (dispatcher_receive t) = pendingCloses t"
  "chan_cap (inch (dispatcher_receive t)) = chan_cap (inch t)"
  "chan_closed (inch (dispatcher_receive t)) = chan_closed (inch t)"
  by (auto simp: dispatcher_receive_def try_recv_def
      split: dispatcher.split recv_outcome.splits list.splits if_splits)

lemma closed_topic_frame [simp]:
  "t_name (closed_topic t) = t_name t" "publisher (closed_topic t) = publisher t"
  "stream (closed_topic t) = stream t" "subscribers (closed_topic t) = fmempty"
  "t_cfg (closed_topic t) = t_cfg t" "closed (closed_topic t) = True"
  "graceTimer (closed_topic t) = graceTimer t"
  "pendingCloses (closed_topic t) = pendingCloses t"
  "chan_buf (inch (closed_topic t)) = chan_buf (inch t)"
  "chan_cap (inch (closed_topic t)) = chan_cap (inch t)"
  by (simp_all add: closed_topic_def)

end
