(* ===== verification/Manager.thy ===== *)
theory Manager
  imports TopicProps
begin

text \<open>
  The \<open>Manager\<close> of \<^verbatim>\<open>pkg/topic/topic.go\<close>.  Every method but \<open>PublishPacket\<close> holds the
  manager's mutex from its first to its last statement, so it is one atomic step: a
  function of the manager and the world.  \<open>PublishPacket\<close> releases both mutexes
  before it touches the channel; its three selects are separate steps
  (\<open>publish_select\<close>) that other goroutines can interleave with.

  The \<open>ctx\<close> arguments of the registration methods are not used by the code and are
  left out.  A \<open>*Topic\<close> is never removed from the map, so the name of a topic
  identifies it and an update through the pointer is an update of the map.
\<close>

datatype mgr_error =
    ErrMaxPublishers
  | ErrTopicHasPublisher
  | ErrTopicMaxSubscribers
  | ErrNoActivePublisher

record manager =
  topics :: "(string, topic) fmap"
  m_cfg :: config
  publisherCount :: int

definition NewManager :: "config \<Rightarrow> manager" where
  "NewManager cfg = \<lparr>topics = fmempty, m_cfg = cfg, publisherCount = 0\<rparr>"

definition Config :: "manager \<Rightarrow> config" where
  "Config m = m_cfg m"

definition set_topic :: "string \<Rightarrow> topic \<Rightarrow> manager \<Rightarrow> manager" where
  "set_topic name t m = m\<lparr>topics := fmupd name t (topics m)\<rparr>"

text \<open>
  The loop of \<open>Shutdown\<close>.  The argument lists the topics in the order the range
  visits them, each with the order in which its \<open>Close\<close> visits its subscribers.
\<close>

fun Shutdown :: "(string \<times> string list) list \<Rightarrow> manager \<Rightarrow> world \<Rightarrow> (manager \<times> world) option" where
  "Shutdown [] m w = Some (m, w)"
| "Shutdown ((name, ids) # rest) m w = (case fmlookup (topics m) name of
       None \<Rightarrow> Shutdown rest m w
     | Some t \<Rightarrow> (case Close ids t w of
           None \<Rightarrow> None
         | Some (t', w') \<Rightarrow> Shutdown rest (set_topic name t' m) w'))"

definition RegisterPublisher ::
    "string \<Rightarrow> publisher_session \<Rightarrow> manager \<Rightarrow> world
      \<Rightarrow> (mgr_error option \<times> manager \<times> world) option" where
  "RegisterPublisher name pub m w =
     (let registered = (\<lambda>t. Some (None,
            (set_topic name t m)\<lparr>publisherCount := publisherCount m + 1\<rparr>,
            with_metrics IncTotalPublishers (with_metrics IncActivePublishers w)))
      in if 0 < MaxPublishers (m_cfg m) \<and> MaxPublishers (m_cfg m) \<le> publisherCount m
         then Some (Some ErrMaxPublishers, m, w)
         else case fmlookup (topics m) name of
           Some t \<Rightarrow>
             if HasPublisher t then Some (Some ErrTopicHasPublisher, m, w)
             else registered (SetPublisher pub t)
         | None \<Rightarrow>
             (case NewTopic name (m_cfg m) of
                None \<Rightarrow> None
              | Some t \<Rightarrow> registered (SetPublisher pub t)))"

definition SetTopicStream :: "string \<Rightarrow> stream_ptr option \<Rightarrow> manager \<Rightarrow> manager" where
  "SetTopicStream name st m = (case fmlookup (topics m) name of
       None \<Rightarrow> m
     | Some t \<Rightarrow> set_topic name (SetStream st t) m)"

definition GetTopicStream :: "string \<Rightarrow> manager \<Rightarrow> stream_ptr option" where
  "GetTopicStream name m = (case fmlookup (topics m) name of
       None \<Rightarrow> None
     | Some t \<Rightarrow> Stream t)"

definition UnregisterPublisher :: "string \<Rightarrow> manager \<Rightarrow> world \<Rightarrow> manager \<times> world" where
  "UnregisterPublisher name m w = (case fmlookup (topics m) name of
       None \<Rightarrow> (m, w)
     | Some t \<Rightarrow>
         (let (t', w') = RemovePublisher t w;
              m' = set_topic name t' m;
              m'' = (if 0 < publisherCount m'
                     then m'\<lparr>publisherCount := publisherCount m' - 1\<rparr> else m')
          in (m'', with_metrics DecActivePublishers w')))"

definition RegisterSubscriber ::
    "string \<Rightarrow> subscriber_session \<Rightarrow> manager \<Rightarrow> world \<Rightarrow> mgr_error option \<times> manager \<times> world" where
  "RegisterSubscriber name sub m w = (case fmlookup (topics m) name of
       Some t \<Rightarrow>
         if MaxSubscribersPerTopic (m_cfg m) \<le> fmsize (subscribers t)
         then (Some ErrTopicMaxSubscribers, m, w)
         else (None, set_topic name (AddSubscriber sub t) m,
               with_metrics IncTotalSubscribers (with_metrics IncActiveSubscribers w))
     | None \<Rightarrow> (Some ErrNoActivePublisher, m, w))"

definition UnregisterSubscriber ::
    "string \<Rightarrow> string \<Rightarrow> manager \<Rightarrow> world \<Rightarrow> manager \<times> world" where
  "UnregisterSubscriber name sid m w = (case fmlookup (topics m) name of
       None \<Rightarrow> (m, w)
     | Some t \<Rightarrow>
         (let prev = fmsize (subscribers t);
              (t', w') = RemoveSubscriber sid t w
          in (set_topic name t' m,
              if fmsize (subscribers t') < prev
              then with_metrics DecActiveSubscribers w' else w')))"

text \<open>The admin view; the argument is the order of the range over the topics.\<close>

record topic_status =
  st_name :: string
  st_has_publisher :: bool
  st_publisher_id :: string
  st_subscriber_count :: int

record status_json =
  st_topics :: "topic_status list"
  st_publisher_count :: int

definition topic_status_of :: "topic \<Rightarrow> topic_status" where
  "topic_status_of t = \<lparr>st_name = t_name t, st_has_publisher = HasPublisher t,
     st_publisher_id = PublisherID t, st_subscriber_count = fmsize (subscribers t)\<rparr>"

fun status_topics :: "string list \<Rightarrow> manager \<Rightarrow> topic_status list" where
  "status_topics [] m = []"
| "status_topics (name # names) m = (case fmlookup (topics m) name of
       None \<Rightarrow> status_topics names m
     | Some t \<Rightarrow> topic_status_of t # status_topics names m)"

definition Status :: "string list \<Rightarrow> manager \<Rightarrow> status_json" where
  "Status names m =
     \<lparr>st_topics = status_topics names m, st_publisher_count = publisherCount m\<rparr>"

section \<open>PublishPacket\<close>

text \<open>Where a call of \<open>PublishPacket\<close> is, once it has found the topic open.\<close>

datatype publish_state = Send1 | Discard | Send2 | Returned bool

text \<open>One select on the inbound channel; \<open>None\<close> is the panic of a send on a closed channel.\<close>

definition publish_select ::
    "publish_state \<Rightarrow> inbound_packet \<Rightarrow> topic \<Rightarrow> world
      \<Rightarrow> (publish_state \<times> topic \<times> world) option" where
  "publish_select st pkt t w = (case st of
       Send1 \<Rightarrow> (case try_send (dispatcher t = Parked) (inch t) pkt of
           Buffered ch \<Rightarrow> Some (Returned True, t\<lparr>inch := ch\<rparr>, w)
         | Handoff \<Rightarrow> Some (Returned True, t\<lparr>dispatcher := Busy pkt\<rparr>, w)
         | SendPanic \<Rightarrow> None
         | WouldBlock \<Rightarrow> Some (Discard, t, w))
     | Discard \<Rightarrow> Some (Send2, t\<lparr>inch := discard_oldest (inch t)\<rparr>, w)
     | Send2 \<Rightarrow> (case try_send (dispatcher t = Parked) (inch t) pkt of
           Buffered ch \<Rightarrow> Some (Returned True, t\<lparr>inch := ch\<rparr>, w)
         | Handoff \<Rightarrow> Some (Returned True, t\<lparr>dispatcher := Busy pkt\<rparr>, w)
         | SendPanic \<Rightarrow> None
         | WouldBlock \<Rightarrow> Some (Returned False, t, with_metrics IncPacketsDropped w))
     | Returned b \<Rightarrow> Some (Returned b, t, w))"

text \<open>The lookup and the check of \<open>closed\<close>; \<open>t.in\<close> is never nil.\<close>

definition publish_begin ::
    "string \<Rightarrow> manager \<Rightarrow> world \<Rightarrow> publish_state \<times> world" where
  "publish_begin name m w = (case fmlookup (topics m) name of
       None \<Rightarrow> (Returned False, w)
     | Some t \<Rightarrow>
         (if closed t then Returned False else Send1, with_metrics IncPacketsReceived w))"

text \<open>The three selects in a row, when no other goroutine interferes.\<close>

definition publish_selects ::
    "inbound_packet \<Rightarrow> topic \<Rightarrow> world \<Rightarrow> (publish_state \<times> topic \<times> world) option" where
  "publish_selects pkt t w =
     Option.bind (publish_select Send1 pkt t w) (\<lambda>(st1, t1, w1).
     Option.bind (publish_select st1 pkt t1 w1) (\<lambda>(st2, t2, w2).
     publish_select st2 pkt t2 w2))"

definition PublishPacket ::
    "string \<Rightarrow> inbound_packet \<Rightarrow> manager \<Rightarrow> world \<Rightarrow> (bool \<times> manager \<times> world) option" where
  "PublishPacket name pkt m w = (case publish_begin name m w of
       (Returned b, w') \<Rightarrow> Some (b, m, w')
     | (_, w') \<Rightarrow> (case fmlookup (topics m) name of
           None \<Rightarrow> Some (False, m, w')
         | Some t \<Rightarrow> (case publish_selects pkt t w' of
               None \<Rightarrow> None
             | Some (st, t', w'') \<Rightarrow>
                 Some (st = Returned True, set_topic name t' m, w''))))"

end
