(* ===== verification/ManagerProps.thy ===== *)
theory ManagerProps
  imports Manager
begin

text \<open>
  What the operations of the manager guarantee: the invariant of the manager and
  its preservation, the effect of each operation on each branch, the gauges against
  the state they count, and the drop-oldest contract of the inbound queue.
\<close>

section \<open>The invariant of the manager\<close>

definition mgr_ok :: "manager \<Rightarrow> bool" where [inv_defs]:
  "mgr_ok m \<longleftrightarrow>
     (\<forall>n t. fmlookup (topics m) n = Some t \<longrightarrow>
        t_name t = n \<and> topic_ok t \<and> t_cfg t = m_cfg m
        \<and> chan_cap (inch t) = nat (PublisherQueueSize (m_cfg m))
        \<and> fmsize (subscribers t) \<le> max 0 (MaxSubscribersPerTopic (m_cfg m)))
   \<and> 0 \<le> publisherCount m
   \<and> (0 < MaxPublishers (m_cfg m) \<longrightarrow> publisherCount m \<le> MaxPublishers (m_cfg m))"

lemma mgr_okD:
  assumes "mgr_ok m" and "fmlookup (topics m) n = Some t"
  shows "t_name t = n" "topic_ok t" "t_cfg t = m_cfg m"
    "chan_cap (inch t) = nat (PublisherQueueSize (m_cfg m))"
    "fmsize (subscribers t) \<le> max 0 (MaxSubscribersPerTopic (m_cfg m))"
  using assms by (auto simp: mgr_ok_def)

lemma mgr_ok_countD:
  assumes "mgr_ok m"
  shows "0 \<le> publisherCount m"
    "0 < MaxPublishers (m_cfg m) \<Longrightarrow> publisherCount m \<le> MaxPublishers (m_cfg m)"
  using assms by (simp_all add: mgr_ok_def)

lemma mgr_ok_NewManager [inv_intros]: "mgr_ok (NewManager cfg)"
  by (simp add: mgr_ok_def NewManager_def)

lemma set_topic_simps [simp]:
  "topics (set_topic n t m) = fmupd n t (topics m)"
  "m_cfg (set_topic n t m) = m_cfg m"
  "publisherCount (set_topic n t m) = publisherCount m"
  by (simp_all add: set_topic_def)

lemma set_topic_same: "fmlookup (topics m) n = Some t \<Longrightarrow> set_topic n t m = m"
  by (simp add: set_topic_def fmupd_same)

text \<open>What a topic must satisfy to be stored under a name of a manager.\<close>

definition topic_fits :: "manager \<Rightarrow> string \<Rightarrow> topic \<Rightarrow> bool" where
  "topic_fits m n t \<longleftrightarrow> t_name t = n \<and> topic_ok t \<and> t_cfg t = m_cfg m
     \<and> chan_cap (inch t) = nat (PublisherQueueSize (m_cfg m))
     \<and> fmsize (subscribers t) \<le> max 0 (MaxSubscribersPerTopic (m_cfg m))"

lemma topic_fits_lookup: "mgr_ok m \<Longrightarrow> fmlookup (topics m) n = Some t \<Longrightarrow> topic_fits m n t"
  by (simp add: mgr_ok_def topic_fits_def)

lemma mgr_ok_set_topic: "mgr_ok m \<Longrightarrow> topic_fits m n t \<Longrightarrow> mgr_ok (set_topic n t m)"
  by (simp add: mgr_ok_def topic_fits_def)

lemma mgr_ok_count:
  "mgr_ok m \<Longrightarrow> 0 \<le> c \<Longrightarrow> (0 < MaxPublishers (m_cfg m) \<longrightarrow> c \<le> MaxPublishers (m_cfg m))
    \<Longrightarrow> mgr_ok (m\<lparr>publisherCount := c\<rparr>)"
  by (simp add: mgr_ok_def)

lemma NewTopic_Some:
  "NewTopic n cfg = Some t \<longleftrightarrow> 0 \<le> PublisherQueueSize cfg \<and>
     t = \<lparr>t_name = n, publisher = None, stream = None, subscribers = fmempty,
       inch = \<lparr>chan_buf = [], chan_cap = nat (PublisherQueueSize cfg), chan_closed = False\<rparr>,
       t_cfg = cfg, closed = False, graceTimer = None, dispatcher = Looping, pendingCloses = 0\<rparr>"
  by (auto simp: NewTopic_def make_chan_def)

lemma topic_fits_NewTopic: "NewTopic n (m_cfg m) = Some t \<Longrightarrow> topic_fits m n t"
  using topic_ok_NewTopic by (auto simp: topic_fits_def NewTopic_Some)

section \<open>Every operation keeps the invariant\<close>

lemma RegisterPublisher_ok [inv_intros]:
  assumes "mgr_ok m" and "RegisterPublisher n p m w = Some (e, m', w')"
  shows "mgr_ok m'"
proof -
  have new: "mgr_ok ((set_topic n (SetPublisher p t) m)\<lparr>publisherCount := publisherCount m + 1\<rparr>)"
    if "topic_fits m n t"
      and "\<not> (0 < MaxPublishers (m_cfg m) \<and> MaxPublishers (m_cfg m) \<le> publisherCount m)" for t
  proof (rule mgr_ok_count)
    have "topic_fits m n (SetPublisher p t)"
      using that(1) by (simp add: topic_fits_def topic_ok_SetPublisher)
    then show "mgr_ok (set_topic n (SetPublisher p t) m)"
      using assms(1) by (simp add: mgr_ok_set_topic)
  qed (use that(2) mgr_ok_countD [OF assms(1)] in auto)
  show ?thesis
  proof (cases "fmlookup (topics m) n")
    case None
    with assms new show ?thesis
      by (simp add: RegisterPublisher_def Let_def split: if_splits option.splits)
         (metis topic_fits_NewTopic)
  next
    case (Some t)
    with assms new topic_fits_lookup show ?thesis
      by (simp add: RegisterPublisher_def Let_def split: if_splits) metis
  qed
qed

lemma UnregisterPublisher_ok [inv_intros]:
  assumes "mgr_ok m"
  shows "mgr_ok (fst (UnregisterPublisher n m w))"
proof (cases "fmlookup (topics m) n")
  case None
  with assms show ?thesis by (simp add: UnregisterPublisher_def)
next
  case (Some t)
  let ?t = "fst (RemovePublisher t w)"
  have "topic_fits m n ?t"
    using topic_fits_lookup [OF assms Some] by (simp add: topic_fits_def topic_ok_RemovePublisher)
  then have *: "mgr_ok (set_topic n ?t m)" using assms by (simp add: mgr_ok_set_topic)
  then have "mgr_ok ((set_topic n ?t m)\<lparr>publisherCount := publisherCount m - 1\<rparr>)"
    if "0 < publisherCount m"
    using that mgr_ok_countD [OF assms] by (intro mgr_ok_count) auto
  with * Some show ?thesis
    by (simp add: UnregisterPublisher_def Let_def split_beta)
qed

lemma SetTopicStream_ok [inv_intros]:
  assumes "mgr_ok m"
  shows "mgr_ok (SetTopicStream n st m)"
proof (cases "fmlookup (topics m) n")
  case None
  with assms show ?thesis by (simp add: SetTopicStream_def)
next
  case (Some t)
  then have "topic_fits m n (SetStream st t)"
    using mgr_okD [OF assms Some] by (simp add: topic_fits_def topic_ok_SetStream)
  with assms Some show ?thesis by (simp add: SetTopicStream_def mgr_ok_set_topic)
qed

lemma RegisterSubscriber_ok [inv_intros]:
  assumes "mgr_ok m" and "sub_ok s" and "RegisterSubscriber n s m w = (e, m', w')"
  shows "mgr_ok m'"
proof (cases "fmlookup (topics m) n")
  case None
  with assms show ?thesis by (simp add: RegisterSubscriber_def)
next
  case (Some t)
  show ?thesis
  proof (cases "MaxSubscribersPerTopic (m_cfg m) \<le> fmsize (subscribers t)")
    case True
    with assms Some show ?thesis by (simp add: RegisterSubscriber_def)
  next
    case False
    then have size: "fmsize (subscribers (AddSubscriber s t)) \<le> max 0 (MaxSubscribersPerTopic (m_cfg m))"
      using mgr_okD(5) [OF assms(1) Some] by (auto simp: fmsize_fmupd)
    have "topic_ok (AddSubscriber s t)"
      using mgr_okD(2) [OF assms(1) Some] assms(2) by (rule topic_ok_AddSubscriber)
    with size have "topic_fits m n (AddSubscriber s t)"
      using mgr_okD [OF assms(1) Some] by (simp add: topic_fits_def)
    with assms Some False show ?thesis
      by (simp add: RegisterSubscriber_def) (metis mgr_ok_set_topic)
  qed
qed

lemma UnregisterSubscriber_ok [inv_intros]:
  assumes "mgr_ok m"
  shows "mgr_ok (fst (UnregisterSubscriber n i m w))"
proof (cases "fmlookup (topics m) n")
  case None
  with assms show ?thesis by (simp add: UnregisterSubscriber_def)
next
  case (Some t)
  have "fmsize (fmdrop i (subscribers t)) \<le> fmsize (subscribers t)"
    by (simp add: fmsize_fmdrop)
  then have "topic_fits m n (fst (RemoveSubscriber i t w))"
    using mgr_okD [OF assms Some] by (simp add: topic_fits_def topic_ok_RemoveSubscriber)
  with assms Some show ?thesis
    by (simp add: UnregisterSubscriber_def Let_def split_beta mgr_ok_set_topic)
qed

lemma topic_fits_closed_topic: "topic_fits m n t \<Longrightarrow> topic_fits m n (closed_topic t)"
  by (simp add: topic_fits_def topic_ok_closed_topic)

lemma Close_cases:
  assumes "topic_ok t" and "enumerates ids (subscribers t)"
  obtains (already) "closed t" "Close ids t w = Some (t, w)"
    | (now) "\<not> closed t" "Close ids t w = Some (closed_topic t, closed_world t w)"
  using assms Close_closed Close_open by metis

lemma topic_fits_Busy: "topic_fits m n t \<Longrightarrow> topic_fits m n (t\<lparr>dispatcher := Busy pkt\<rparr>)"
  by (simp add: topic_fits_def topic_ok_def)

lemma topic_fits_discard:
  "topic_fits m n t \<Longrightarrow> topic_fits m n (t\<lparr>inch := discard_oldest (inch t)\<rparr>)"
  by (simp add: topic_fits_def topic_ok_def)

lemma topic_fits_append:
  assumes "topic_fits m n t" and "try_send (dispatcher t = Parked) (inch t) pkt = Buffered ch"
  shows "topic_fits m n (t\<lparr>inch := ch\<rparr>)"
  using assms by (simp add: topic_fits_def topic_ok_def chan_ok_def try_send_iffs)

lemma publish_select_ok [inv_intros]:
  assumes "topic_fits m n t" and "publish_select st pkt t w = Some (st', t', w')"
  shows "topic_fits m n t'"
  using assms(2) topic_fits_Busy [OF assms(1)] topic_fits_discard [OF assms(1)]
    topic_fits_append [OF assms(1)] assms(1)
  by (auto simp: publish_select_def split: publish_state.splits send_outcome.splits)

section \<open>The effect of the registrations\<close>

definition limit_reached :: "manager \<Rightarrow> bool" where
  "limit_reached m \<longleftrightarrow> 0 < MaxPublishers (m_cfg m) \<and> MaxPublishers (m_cfg m) \<le> publisherCount m"

definition topic_published :: "manager \<Rightarrow> string \<Rightarrow> bool" where
  "topic_published m n \<longleftrightarrow> (\<exists>t. fmlookup (topics m) n = Some t \<and> HasPublisher t)"

text \<open>The topic a registration works on: the stored one, or a new one.\<close>

definition topic_or_new :: "manager \<Rightarrow> string \<Rightarrow> topic option" where
  "topic_or_new m n = (case fmlookup (topics m) n of
       Some t \<Rightarrow> Some t | None \<Rightarrow> NewTopic n (m_cfg m))"

lemma RegisterPublisher_eq:
  "RegisterPublisher n p m w =
     (if limit_reached m then Some (Some ErrMaxPublishers, m, w)
      else if topic_published m n then Some (Some ErrTopicHasPublisher, m, w)
      else map_option (\<lambda>t. (None,
             (set_topic n (SetPublisher p t) m)\<lparr>publisherCount := publisherCount m + 1\<rparr>,
             with_metrics IncTotalPublishers (with_metrics IncActivePublishers w)))
           (topic_or_new m n))"
  by (auto simp: RegisterPublisher_def limit_reached_def topic_published_def topic_or_new_def
      Let_def split: option.split)

lemma UnregisterPublisher_Some:
  assumes "fmlookup (topics m) n = Some t"
  shows "topics (fst (UnregisterPublisher n m w))
           = fmupd n (fst (RemovePublisher t w)) (topics m)"
    and "m_cfg (fst (UnregisterPublisher n m w)) = m_cfg m"
    and "publisherCount (fst (UnregisterPublisher n m w))
           = (if 0 < publisherCount m then publisherCount m - 1 else publisherCount m)"
    and "snd (UnregisterPublisher n m w) = with_metrics DecActivePublishers (snd (RemovePublisher t w))"
  using assms by (auto simp: UnregisterPublisher_def Let_def split_beta)

section \<open>The publisher counter against the topics\<close>

definition active_publishers :: "manager \<Rightarrow> int" where
  "active_publishers m = fmsum (\<lambda>t. if HasPublisher t then 1 else 0) (topics m)"

definition count_exact :: "manager \<Rightarrow> bool" where [inv_defs]:
  "count_exact m \<longleftrightarrow> publisherCount m = active_publishers m"

lemma active_publishers_set_topic:
  "active_publishers (set_topic n t m) = active_publishers m
     + (if HasPublisher t then 1 else 0) - (if topic_published m n then 1 else 0)"
  by (simp add: active_publishers_def fmsum_fmupd topic_published_def split: option.split)

lemma active_publishers_cong:
  "topics m' = topics m \<Longrightarrow> active_publishers m' = active_publishers m"
  by (simp add: active_publishers_def)

lemma active_publishers_nonneg: "0 \<le> active_publishers m"
  by (simp add: active_publishers_def fmsum_nonneg)

lemma active_publishers_pos:
  assumes "topic_published m n"
  shows "1 \<le> active_publishers m"
proof -
  obtain t where t: "fmlookup (topics m) n = Some t" "HasPublisher t"
    using assms by (auto simp: topic_published_def)
  have "(if HasPublisher t then 1 else 0) \<le> active_publishers m"
    unfolding active_publishers_def using t(1) by (rule fmsum_member_le [rotated]) simp
  with t(2) show ?thesis by simp
qed

lemma count_exact_NewManager [inv_intros]: "count_exact (NewManager cfg)"
  by (simp add: count_exact_def active_publishers_def NewManager_def)

lemma count_exact_RegisterPublisher [inv_intros]:
  assumes "count_exact m" and "RegisterPublisher n p m w = Some (e, m', w')"
  shows "count_exact m'"
proof -
  have "active_publishers ((set_topic n (SetPublisher p t) m)\<lparr>publisherCount := c\<rparr>)
      = active_publishers m + 1" if "\<not> topic_published m n" for t c
    using that active_publishers_set_topic [of n "SetPublisher p t" m]
    by (simp add: active_publishers_def HasPublisher_def)
  with assms show ?thesis
    by (auto simp: RegisterPublisher_eq count_exact_def split: if_splits)
qed

text \<open>Unregistering keeps the counter exact only where there is a publisher to remove.\<close>

lemma count_exact_UnregisterPublisher [inv_intros]:
  assumes "count_exact m" and "topic_published m n"
  shows "count_exact (fst (UnregisterPublisher n m w))"
proof -
  from assms(2) obtain t where t: "fmlookup (topics m) n = Some t"
    by (auto simp: topic_published_def)
  let ?m = "fst (UnregisterPublisher n m w)"
  have "active_publishers ?m = active_publishers (set_topic n (fst (RemovePublisher t w)) m)"
    by (rule active_publishers_cong) (simp add: UnregisterPublisher_Some [OF t])
  also have "\<dots> = active_publishers m - 1"
    using assms(2) by (simp add: active_publishers_set_topic HasPublisher_def)
  finally have "active_publishers ?m = active_publishers m - 1" .
  moreover have "publisherCount ?m = publisherCount m - 1"
    using UnregisterPublisher_Some(3) [OF t, of w] active_publishers_pos [OF assms(2)] assms(1)
    by (auto simp: count_exact_def)
  ultimately show ?thesis using assms(1) by (simp add: count_exact_def)
qed

lemma active_publishers_same_publisher:
  assumes "fmlookup (topics m) n = Some t" and "publisher t' = publisher t"
  shows "active_publishers (set_topic n t' m) = active_publishers m"
  using assms by (auto simp: active_publishers_set_topic topic_published_def HasPublisher_def)

section \<open>The subscriber gauge against the topics\<close>

definition total_subscribers :: "manager \<Rightarrow> int" where
  "total_subscribers m = fmsum (\<lambda>t. fmsize (subscribers t)) (topics m)"

definition gauge_exact :: "manager \<Rightarrow> world \<Rightarrow> bool" where [inv_defs]:
  "gauge_exact m w \<longleftrightarrow> promActiveSubscribers (wmetrics w) = total_subscribers m"

definition subscribed :: "manager \<Rightarrow> string \<Rightarrow> string \<Rightarrow> bool" where
  "subscribed m n sid \<longleftrightarrow>
     (\<exists>t s. fmlookup (topics m) n = Some t \<and> fmlookup (subscribers t) sid = Some s)"

lemma total_subscribers_set_topic:
  "total_subscribers (set_topic n t m) = total_subscribers m + fmsize (subscribers t)
     - (case fmlookup (topics m) n of None \<Rightarrow> 0 | Some u \<Rightarrow> fmsize (subscribers u))"
  by (simp add: total_subscribers_def fmsum_fmupd)

lemma total_subscribers_count [simp]:
  "total_subscribers (m\<lparr>publisherCount := c\<rparr>) = total_subscribers m"
  by (simp add: total_subscribers_def)

lemma total_subscribers_same:
  assumes "fmlookup (topics m) n = Some t" and "fmsize (subscribers t') = fmsize (subscribers t)"
  shows "total_subscribers (set_topic n t' m) = total_subscribers m"
  using assms by (simp add: total_subscribers_set_topic)

lemma gauge_exact_RegisterPublisher [inv_intros]:
  assumes "gauge_exact m w" and "RegisterPublisher n p m w = Some (e, m', w')"
  shows "gauge_exact m' w'"
proof -
  have "total_subscribers (set_topic n (SetPublisher p t) m) = total_subscribers m"
    if "topic_or_new m n = Some t" for t
    using that by (auto simp: total_subscribers_set_topic topic_or_new_def NewTopic_Some
        split: option.splits)
  with assms show ?thesis
    by (auto simp: RegisterPublisher_eq gauge_exact_def metric_defs split: if_splits)
qed

lemma gauge_exact_UnregisterPublisher [inv_intros]:
  assumes "gauge_exact m w"
  shows "gauge_exact (fst (UnregisterPublisher n m w)) (snd (UnregisterPublisher n m w))"
proof (cases "fmlookup (topics m) n")
  case None
  with assms show ?thesis by (simp add: UnregisterPublisher_def)
next
  case (Some t)
  have "total_subscribers (fst (UnregisterPublisher n m w))
      = total_subscribers (set_topic n (fst (RemovePublisher t w)) m)"
    by (simp add: total_subscribers_def UnregisterPublisher_Some [OF Some])
  also have "\<dots> = total_subscribers m"
    using Some by (intro total_subscribers_same) simp_all
  finally show ?thesis
    using assms by (simp add: gauge_exact_def UnregisterPublisher_Some [OF Some] metric_defs)
qed

text \<open>A registration under an identifier the topic already has is counted twice.\<close>

lemma RegisterSubscriber_gauge:
  assumes "RegisterSubscriber n s m w = (None, m', w')"
  shows "promActiveSubscribers (wmetrics w') = promActiveSubscribers (wmetrics w) + 1"
    and "total_subscribers m'
           = total_subscribers m + (if subscribed m n (sub_id s) then 0 else 1)"
  using assms
  by (auto simp: RegisterSubscriber_def metric_defs subscribed_def total_subscribers_set_topic
      fmsize_fmupd split: option.splits if_splits)

lemma RegisterSubscriber_rejected:
  "RegisterSubscriber n s m w = (Some e, m', w') \<Longrightarrow> m' = m \<and> w' = w"
  by (auto simp: RegisterSubscriber_def split: option.splits if_splits)

lemma gauge_exact_RegisterSubscriber [inv_intros]:
  assumes "gauge_exact m w" and "\<not> subscribed m n (sub_id s)"
    and "RegisterSubscriber n s m w = (e, m', w')"
  shows "gauge_exact m' w'"
proof (cases e)
  case None
  with assms RegisterSubscriber_gauge [of n s m w m' w'] show ?thesis
    by (simp add: gauge_exact_def)
next
  case (Some x)
  with assms RegisterSubscriber_rejected [of n s m w x m' w'] show ?thesis by simp
qed

lemma UnregisterSubscriber_eq:
  "UnregisterSubscriber n i m w = (case fmlookup (topics m) n of
       None \<Rightarrow> (m, w)
     | Some t \<Rightarrow>
         (set_topic n (fst (RemoveSubscriber i t w)) m,
          if fmlookup (subscribers t) i = None then snd (RemoveSubscriber i t w)
          else with_metrics DecActiveSubscribers (snd (RemoveSubscriber i t w))))"
  by (auto simp: UnregisterSubscriber_def Let_def split_beta fmsize_fmdrop split: option.split)

lemma gauge_exact_UnregisterSubscriber [inv_intros]:
  assumes "gauge_exact m w"
  shows "gauge_exact (fst (UnregisterSubscriber n i m w)) (snd (UnregisterSubscriber n i m w))"
  using assms
  by (auto simp: UnregisterSubscriber_eq gauge_exact_def total_subscribers_set_topic fmsize_fmdrop
      metric_defs split: option.split)

lemma closed_world_gauge:
  "promActiveSubscribers (wmetrics (closed_world t w))
     = promActiveSubscribers (wmetrics w) - fmsize (subscribers t)"
  by (auto simp: closed_world_def metric_defs dest: not_pos_fmsize)

lemma gauge_exact_closed:
  assumes "gauge_exact m w" and "fmlookup (topics m) n = Some t"
  shows "gauge_exact (set_topic n (closed_topic t) m) (closed_world t w)"
  using assms by (simp add: gauge_exact_def closed_world_gauge total_subscribers_set_topic)

section \<open>Publishing\<close>

lemma publish_selects_parked:
  "topic_ok t \<Longrightarrow> dispatcher t = Parked \<Longrightarrow>
   publish_selects pkt t w = Some (Returned True, t\<lparr>dispatcher := Busy pkt\<rparr>, w)"
  by (simp add: publish_selects_def publish_select_def try_send_def topic_ok_def)

text \<open>A topic whose inbound queue works as a queue: open, with room for at least one
  packet, and the dispatcher not waiting for it.\<close>

definition queueing :: "topic \<Rightarrow> bool" where
  "queueing t \<longleftrightarrow> topic_ok t \<and> \<not> closed t \<and> dispatcher t \<noteq> Parked \<and> 0 < chan_cap (inch t)"

lemma publish_selects_room:
  "queueing t \<Longrightarrow> length (chan_buf (inch t)) < chan_cap (inch t) \<Longrightarrow>
   publish_selects pkt t w
     = Some (Returned True, t\<lparr>inch := (inch t)\<lparr>chan_buf := chan_buf (inch t) @ [pkt]\<rparr>\<rparr>, w)"
  by (simp add: publish_selects_def publish_select_def try_send_def queueing_def topic_ok_def)

lemma publish_selects_full:
  "queueing t \<Longrightarrow> length (chan_buf (inch t)) = chan_cap (inch t) \<Longrightarrow>
   publish_selects pkt t w
     = Some (Returned True, t\<lparr>inch := (inch t)\<lparr>chan_buf := tl (chan_buf (inch t)) @ [pkt]\<rparr>\<rparr>, w)"
  by (auto simp: publish_selects_def publish_select_def try_send_def queueing_def topic_ok_def
      intro!: topic.equality gochan.equality)

lemma publish_selects_no_capacity:
  assumes "topic_ok t" and "\<not> closed t" and "dispatcher t \<noteq> Parked" and "chan_cap (inch t) = 0"
  shows "publish_selects pkt t w = Some (Returned False, t, with_metrics IncPacketsDropped w)"
  using assms
  by (auto simp: publish_selects_def publish_select_def try_send_def topic_ok_def chan_ok_def
      intro!: topic.equality gochan.equality)

text \<open>
  The inbound queue as an interpretation of the drop-oldest contract.  Its state is the
  topic together with the world, which the selects thread through.
\<close>

definition enq_topic :: "topic \<times> world \<Rightarrow> inbound_packet \<Rightarrow> topic \<times> world" where
  "enq_topic q pkt = (case publish_selects pkt (fst q) (snd q) of
       None \<Rightarrow> q | Some (_, t', w') \<Rightarrow> (t', w'))"

lemma publish_selects_queueing:
  assumes "queueing t"
  shows "publish_selects pkt t w = Some (Returned True, fst (enq_topic (t, w) pkt), w)"
    and "snd (enq_topic (t, w) pkt) = w"
    and "fst (enq_topic (t, w) pkt) = t\<lparr>inch := (inch t)\<lparr>chan_buf :=
           lastn (chan_cap (inch t)) (chan_buf (inch t) @ [pkt])\<rparr>\<rparr>"
proof -
  have "publish_selects pkt t w = Some (Returned True, t\<lparr>inch := (inch t)\<lparr>chan_buf :=
      lastn (chan_cap (inch t)) (chan_buf (inch t) @ [pkt])\<rparr>\<rparr>, w)"
  proof (cases "length (chan_buf (inch t)) < chan_cap (inch t)")
    case True
    with assms show ?thesis by (simp add: publish_selects_room lastn_snoc_room)
  next
    case False
    with assms have "length (chan_buf (inch t)) = chan_cap (inch t)"
      by (simp add: queueing_def topic_ok_def chan_ok_def)
    moreover have "0 < chan_cap (inch t)" using assms by (simp add: queueing_def)
    ultimately show ?thesis using assms by (simp add: publish_selects_full lastn_snoc_full)
  qed
  then show "publish_selects pkt t w = Some (Returned True, fst (enq_topic (t, w) pkt), w)"
    and "snd (enq_topic (t, w) pkt) = w"
    and "fst (enq_topic (t, w) pkt) = t\<lparr>inch := (inch t)\<lparr>chan_buf :=
           lastn (chan_cap (inch t)) (chan_buf (inch t) @ [pkt])\<rparr>\<rparr>"
    by (simp_all add: enq_topic_def)
qed

interpretation inq: drop_oldest_queue enq_topic "\<lambda>q. chan_buf (inch (fst q))"
  "\<lambda>q. chan_cap (inch (fst q))" "\<lambda>q. queueing (fst q)"
proof (unfold_locales, goal_cases)
  case (1 q x)
  then show ?case
    by (cases q) (simp add: publish_selects_queueing lastn_snoc_room)
next
  case (2 q x)
  then have "0 < chan_cap (inch (fst q))" by (simp add: queueing_def)
  with 2 show ?case
    by (cases q) (simp add: publish_selects_queueing lastn_snoc_full)
next
  case (3 q x)
  then show ?case by (cases q) (simp add: publish_selects_queueing)
next
  case (4 q x)
  then show ?case
    by (cases q) (auto simp: publish_selects_queueing queueing_def topic_ok_def chan_ok_def)
next
  case (5 q)
  then show ?case by (simp add: queueing_def)
next
  case (6 q)
  then show ?case by (simp add: queueing_def topic_ok_def chan_ok_def)
qed

text \<open>The whole call on a queueing topic.\<close>

lemma PublishPacket_queueing:
  assumes "fmlookup (topics m) n = Some t" and "queueing t"
  shows "PublishPacket n pkt m w = Some (True,
     set_topic n (fst (enq_topic (t, w) pkt)) m, with_metrics IncPacketsReceived w)"
proof -
  have "enq_topic (t, w) pkt = (fst (enq_topic (t, v) pkt), w)" for v
    using publish_selects_queueing(2,3) [OF assms(2)] by (simp add: prod_eq_iff)
  then have "publish_selects pkt t v = Some (Returned True, fst (enq_topic (t, w) pkt), v)" for v
    using publish_selects_queueing(1) [OF assms(2), of pkt v] by (metis fst_conv)
  with assms show ?thesis
    by (simp add: PublishPacket_def publish_begin_def queueing_def)
qed

lemma PublishPacket_closed:
  assumes "fmlookup (topics m) n = Some t" and "closed t"
  shows "PublishPacket n pkt m w = Some (False, m, with_metrics IncPacketsReceived w)"
  using assms by (simp add: PublishPacket_def publish_begin_def)

lemma PublishPacket_unknown:
  "fmlookup (topics m) n = None \<Longrightarrow> PublishPacket n pkt m w = Some (False, m, w)"
  by (simp add: PublishPacket_def publish_begin_def)

end
