(* ===== verification/Registry.thy ===== *)
theory Registry
  imports ManagerProps
begin

text \<open>
  The abstract specification of the topic manager: a registry that knows, for every
  topic, who publishes it and who subscribes to it.  It has no counter: the limit on
  publishers is a limit on the number of topics that have one.  The operations of
  the manager refine the operations of the registry.
\<close>

section \<open>The registry\<close>

type_synonym registry = "string \<Rightarrow> (string option \<times> string set) option"

definition published_names :: "registry \<Rightarrow> string set" where
  "published_names r = {n. \<exists>p ss. r n = Some (Some p, ss)}"

definition spec_register_publisher ::
    "config \<Rightarrow> string \<Rightarrow> string \<Rightarrow> registry \<Rightarrow> mgr_error option \<times> registry" where
  "spec_register_publisher cfg n pid r =
     (if 0 < MaxPublishers cfg \<and> MaxPublishers cfg \<le> int (card (published_names r))
      then (Some ErrMaxPublishers, r)
      else case r n of
        Some (Some _, _) \<Rightarrow> (Some ErrTopicHasPublisher, r)
      | Some (None, ss) \<Rightarrow> (None, r(n \<mapsto> (Some pid, ss)))
      | None \<Rightarrow> (None, r(n \<mapsto> (Some pid, {}))))"

definition spec_unregister_publisher :: "string \<Rightarrow> registry \<Rightarrow> registry" where
  "spec_unregister_publisher n r = r(n := map_option (\<lambda>(_, ss). (None, ss)) (r n))"

definition spec_register_subscriber ::
    "config \<Rightarrow> string \<Rightarrow> string \<Rightarrow> registry \<Rightarrow> mgr_error option \<times> registry" where
  "spec_register_subscriber cfg n sid r = (case r n of
       None \<Rightarrow> (Some ErrNoActivePublisher, r)
     | Some (p, ss) \<Rightarrow>
         if MaxSubscribersPerTopic cfg \<le> int (card ss) then (Some ErrTopicMaxSubscribers, r)
         else (None, r(n \<mapsto> (p, insert sid ss))))"

definition spec_unregister_subscriber :: "string \<Rightarrow> string \<Rightarrow> registry \<Rightarrow> registry" where
  "spec_unregister_subscriber n sid r = r(n := map_option (\<lambda>(p, ss). (p, ss - {sid})) (r n))"

text \<open>A topic that is closed loses its subscribers.\<close>

definition spec_expire :: "string \<Rightarrow> registry \<Rightarrow> registry" where
  "spec_expire n r = r(n := map_option (\<lambda>(p, ss). (p, {})) (r n))"

section \<open>The abstraction\<close>

definition topic_entry :: "topic \<Rightarrow> string option \<times> string set" where
  "topic_entry t = (map_option pub_id (publisher t), fmdom' (subscribers t))"

definition registry_of :: "manager \<Rightarrow> registry" where
  "registry_of m = (\<lambda>n. map_option topic_entry (fmlookup (topics m) n))"

lemma registry_of_NewManager: "registry_of (NewManager cfg) = Map.empty"
  by (simp add: registry_of_def NewManager_def)

lemma registry_of_set_topic: "registry_of (set_topic n t m) = (registry_of m)(n \<mapsto> topic_entry t)"
  by (auto simp: registry_of_def)

lemma registry_of_count [simp]: "registry_of (m\<lparr>publisherCount := c\<rparr>) = registry_of m"
  by (simp add: registry_of_def)

lemma registry_of_same:
  assumes "fmlookup (topics m) n = Some t" and "topic_entry t' = topic_entry t"
  shows "registry_of (set_topic n t' m) = registry_of m"
  using assms by (auto simp: registry_of_def fun_eq_iff)

lemma card_published_names: "int (card (published_names (registry_of m))) = active_publishers m"
proof -
  have "published_names (registry_of m)
      = {n. \<exists>t. fmlookup (topics m) n = Some t \<and> HasPublisher t}"
    by (auto simp: published_names_def registry_of_def topic_entry_def HasPublisher_def)
  then show ?thesis by (simp add: active_publishers_def fmsum_indicator)
qed

section \<open>The refinement, operation by operation\<close>

lemma RegisterPublisher_refines:
  assumes "count_exact m" and "0 \<le> PublisherQueueSize (m_cfg m)"
  shows "\<exists>e m' w'. RegisterPublisher n p m w = Some (e, m', w')
    \<and> spec_register_publisher (m_cfg m) n (pub_id p) (registry_of m) = (e, registry_of m')"
proof -
  have limit: "limit_reached m \<longleftrightarrow> 0 < MaxPublishers (m_cfg m)
      \<and> MaxPublishers (m_cfg m) \<le> int (card (published_names (registry_of m)))"
    using assms(1) by (simp add: limit_reached_def count_exact_def card_published_names)
  show ?thesis
  proof (cases "fmlookup (topics m) n")
    case None
    then obtain t where t: "topic_or_new m n = Some t" "publisher t = None" "subscribers t = fmempty"
      using assms(2) by (auto simp: topic_or_new_def NewTopic_Some)
    with None limit show ?thesis
      by (auto simp: RegisterPublisher_eq topic_published_def spec_register_publisher_def
          registry_of_set_topic topic_entry_def) (simp_all add: registry_of_def)
  next
    case (Some t)
    then have "topic_or_new m n = Some t" by (simp add: topic_or_new_def)
    with Some limit show ?thesis
      by (cases "publisher t")
         (auto simp: RegisterPublisher_eq topic_published_def HasPublisher_def
           spec_register_publisher_def registry_of_set_topic topic_entry_def registry_of_def)
  qed
qed

lemma UnregisterPublisher_refines:
  "registry_of (fst (UnregisterPublisher n m w)) = spec_unregister_publisher n (registry_of m)"
proof (cases "fmlookup (topics m) n")
  case None
  then show ?thesis
    by (auto simp: UnregisterPublisher_def spec_unregister_publisher_def registry_of_def)
next
  case (Some t)
  then show ?thesis
    by (auto simp: registry_of_def UnregisterPublisher_Some spec_unregister_publisher_def
        topic_entry_def)
qed

lemma RegisterSubscriber_refines:
  assumes "RegisterSubscriber n s m w = (e, m', w')"
  shows "spec_register_subscriber (m_cfg m) n (sub_id s) (registry_of m) = (e, registry_of m')"
  using assms
  by (auto simp: RegisterSubscriber_def spec_register_subscriber_def registry_of_set_topic
      topic_entry_def fmsize_def split: option.splits if_splits) (auto simp: registry_of_def topic_entry_def)

lemma UnregisterSubscriber_refines:
  "registry_of (fst (UnregisterSubscriber n i m w)) = spec_unregister_subscriber n i (registry_of m)"
  by (auto simp: UnregisterSubscriber_eq spec_unregister_subscriber_def registry_of_set_topic
      topic_entry_def split: option.split) (auto simp: registry_of_def topic_entry_def)

lemma closed_topic_refines:
  "fmlookup (topics m) n = Some t \<Longrightarrow>
   registry_of (set_topic n (closed_topic t) m) = spec_expire n (registry_of m)"
  by (auto simp: spec_expire_def registry_of_set_topic topic_entry_def)
     (auto simp: registry_of_def topic_entry_def)

end
