(* ===== verification/System.thy ===== *)
theory System
  imports Registry
begin

text \<open>
  The manager, its topics, their dispatchers and timers, and any number of calls of
  \<open>PublishPacket\<close>, as one transition system.  A manager method is one step, because
  it holds the manager's mutex; a topic's dispatcher, timer and late \<open>Close\<close> run
  on their own; a \<open>PublishPacket\<close> is its check and then one step per select.
\<close>

record sys =
  mgr :: manager
  wld :: world
  calls :: "nat \<Rightarrow> (string \<times> inbound_packet \<times> publish_state) option"

definition init_world :: world where
  "init_world = \<lparr>wmetrics = metrics_init, cancelled = {}, streams_closed = {}, next_ctx = 0\<rparr>"

text \<open>
  The manager starts in whatever world the start of the process has left (ports
  reserved, the OTLP exporter created): nobody publishes or subscribes in it yet.
\<close>

definition fresh_world :: "world \<Rightarrow> bool" where
  "fresh_world w \<longleftrightarrow> promActivePublishers (wmetrics w) = 0 \<and> promActiveSubscribers (wmetrics w) = 0"

definition start_sys :: "config \<Rightarrow> world \<Rightarrow> sys" where
  "start_sys cfg w = \<lparr>mgr = NewManager cfg, wld = w, calls = (\<lambda>_. None)\<rparr>"

definition init_sys :: "config \<Rightarrow> sys" where
  "init_sys cfg = start_sys cfg init_world"

lemma fresh_init_world [simp]: "fresh_world init_world"
  by (simp add: fresh_world_def init_world_def metrics_init_def)

datatype event =
    Publisher_registers string string
  | Publisher_leaves string
  | Subscriber_registers string string int
  | Subscriber_leaves string string
  | Stream_set string "stream_ptr option"
  | Timer_expires string
  | Close_runs string "string list"
  | Dispatcher_receives string
  | Dispatcher_fans_out string "string list"
  | Publish_called nat string inbound_packet
  | Publish_selects nat
  | Shutdown_runs "(string \<times> string list) list"
  | Packet_counted  \<comment> \<open>the RTSP handlers count packets on their own\<close>

text \<open>An order in which \<open>Shutdown\<close> can visit the topics and their subscribers.\<close>

definition shutdown_order :: "(string \<times> string list) list \<Rightarrow> manager \<Rightarrow> bool" where
  "shutdown_order ord m \<longleftrightarrow> enumerates (map fst ord) (topics m) \<and>
     (\<forall>(n, ids) \<in> set ord. \<exists>t. fmlookup (topics m) n = Some t \<and> enumerates ids (subscribers t))"

definition idle :: "(string \<times> inbound_packet \<times> publish_state) option \<Rightarrow> bool" where
  "idle c \<longleftrightarrow> (case c of None \<Rightarrow> True | Some (_, _, Returned _) \<Rightarrow> True | _ \<Rightarrow> False)"

inductive sys_step :: "sys \<Rightarrow> event \<Rightarrow> sys \<Rightarrow> bool" where
  publisher_registers:
    "NewPublisherSession pid (wld s) = (p, w1) \<Longrightarrow>
     RegisterPublisher n p (mgr s) w1 = Some (e, m', w') \<Longrightarrow>
     sys_step s (Publisher_registers n pid) (s\<lparr>mgr := m', wld := w'\<rparr>)"
| publisher_leaves:
    "UnregisterPublisher n (mgr s) (wld s) = (m', w') \<Longrightarrow>
     sys_step s (Publisher_leaves n) (s\<lparr>mgr := m', wld := w'\<rparr>)"
| subscriber_registers:
    "NewSubscriberSession sid qsz (wld s) = Some (sub, w1) \<Longrightarrow>
     RegisterSubscriber n sub (mgr s) w1 = (e, m', w') \<Longrightarrow>
     sys_step s (Subscriber_registers n sid qsz) (s\<lparr>mgr := m', wld := w'\<rparr>)"
| subscriber_leaves:
    "UnregisterSubscriber n sid (mgr s) (wld s) = (m', w') \<Longrightarrow>
     sys_step s (Subscriber_leaves n sid) (s\<lparr>mgr := m', wld := w'\<rparr>)"
| stream_set:
    "sys_step s (Stream_set n st) (s\<lparr>mgr := SetTopicStream n st (mgr s)\<rparr>)"
| timer_expires:
    "fmlookup (topics (mgr s)) n = Some t \<Longrightarrow>
     sys_step s (Timer_expires n) (s\<lparr>mgr := set_topic n (timer_fire t) (mgr s)\<rparr>)"
| close_runs:
    "fmlookup (topics (mgr s)) n = Some t \<Longrightarrow> enumerates ids (subscribers t) \<Longrightarrow>
     run_pending_close ids t (wld s) = Some (t', w') \<Longrightarrow>
     sys_step s (Close_runs n ids) (s\<lparr>mgr := set_topic n t' (mgr s), wld := w'\<rparr>)"
| dispatcher_receives:
    "fmlookup (topics (mgr s)) n = Some t \<Longrightarrow>
     sys_step s (Dispatcher_receives n) (s\<lparr>mgr := set_topic n (dispatcher_receive t) (mgr s)\<rparr>)"
| dispatcher_fans_out:
    "fmlookup (topics (mgr s)) n = Some t \<Longrightarrow> enumerates ids (subscribers t) \<Longrightarrow>
     dispatcher_body ids t (wld s) = Some (t', w') \<Longrightarrow>
     sys_step s (Dispatcher_fans_out n ids) (s\<lparr>mgr := set_topic n t' (mgr s), wld := w'\<rparr>)"
| publish_called:
    "idle (calls s i) \<Longrightarrow> publish_begin n (mgr s) (wld s) = (st, w') \<Longrightarrow>
     sys_step s (Publish_called i n pkt) (s\<lparr>wld := w', calls := (calls s)(i \<mapsto> (n, pkt, st))\<rparr>)"
| publish_selects:
    "calls s i = Some (n, pkt, st) \<Longrightarrow> fmlookup (topics (mgr s)) n = Some t \<Longrightarrow>
     publish_select st pkt t (wld s) = Some (st', t', w') \<Longrightarrow>
     sys_step s (Publish_selects i) (s\<lparr>mgr := set_topic n t' (mgr s), wld := w',
       calls := (calls s)(i \<mapsto> (n, pkt, st'))\<rparr>)"
| shutdown_runs:
    "shutdown_order ord (mgr s) \<Longrightarrow> Shutdown ord (mgr s) (wld s) = Some (m', w') \<Longrightarrow>
     sys_step s (Shutdown_runs ord) (s\<lparr>mgr := m', wld := w'\<rparr>)"
| packet_counted:
    "sys_step s Packet_counted
       (s\<lparr>wld := with_metrics IncPacketsDispatched (with_metrics IncPacketsReceived (wld s))\<rparr>)"

text \<open>The steps that panic, which ends the process.\<close>

inductive sys_panic :: "sys \<Rightarrow> event \<Rightarrow> bool" where
  panic_register_publisher:
    "NewPublisherSession pid (wld s) = (p, w1) \<Longrightarrow> RegisterPublisher n p (mgr s) w1 = None \<Longrightarrow>
     sys_panic s (Publisher_registers n pid)"
| panic_register_subscriber:
    "NewSubscriberSession sid qsz (wld s) = None \<Longrightarrow>
     sys_panic s (Subscriber_registers n sid qsz)"
| panic_close:
    "fmlookup (topics (mgr s)) n = Some t \<Longrightarrow> enumerates ids (subscribers t) \<Longrightarrow>
     run_pending_close ids t (wld s) = None \<Longrightarrow> sys_panic s (Close_runs n ids)"
| panic_fan_out:
    "fmlookup (topics (mgr s)) n = Some t \<Longrightarrow> enumerates ids (subscribers t) \<Longrightarrow>
     dispatcher_body ids t (wld s) = None \<Longrightarrow> sys_panic s (Dispatcher_fans_out n ids)"
| panic_publish:
    "calls s i = Some (n, pkt, st) \<Longrightarrow> fmlookup (topics (mgr s)) n = Some t \<Longrightarrow>
     publish_select st pkt t (wld s) = None \<Longrightarrow> sys_panic s (Publish_selects i)"
| panic_shutdown:
    "shutdown_order ord (mgr s) \<Longrightarrow> Shutdown ord (mgr s) (wld s) = None \<Longrightarrow>
     sys_panic s (Shutdown_runs ord)"

inductive_cases sys_stepE: "sys_step s e s'"
inductive_cases sys_panicE: "sys_panic s e"

inductive_simps sys_step_simps:
  "sys_step s (Publisher_registers n pid) s'"
  "sys_step s (Publisher_leaves n) s'"
  "sys_step s (Subscriber_registers n sid qsz) s'"
  "sys_step s (Subscriber_leaves n sid) s'"
  "sys_step s (Stream_set n st) s'"
  "sys_step s (Timer_expires n) s'"
  "sys_step s (Close_runs n ids) s'"
  "sys_step s (Dispatcher_receives n) s'"
  "sys_step s (Dispatcher_fans_out n ids) s'"
  "sys_step s (Publish_called i n pkt) s'"
  "sys_step s (Publish_selects i) s'"
  "sys_step s (Shutdown_runs ord) s'"
  "sys_step s Packet_counted s'"

text \<open>
  Reachability under a discipline: a predicate that says which events the
  environment may produce in which state.
\<close>

inductive reach :: "(sys \<Rightarrow> event \<Rightarrow> bool) \<Rightarrow> config \<Rightarrow> sys \<Rightarrow> bool" for D cfg where
  start: "fresh_world w \<Longrightarrow> reach D cfg (start_sys cfg w)"
| step: "reach D cfg s \<Longrightarrow> D s e \<Longrightarrow> sys_step s e s' \<Longrightarrow> reach D cfg s'"

lemma reach_init: "reach D cfg (init_sys cfg)"
  by (simp add: init_sys_def reach.start)

definition any_event :: "sys \<Rightarrow> event \<Rightarrow> bool" where
  "any_event s e \<longleftrightarrow> True"

lemma reach_any: "reach D cfg s \<Longrightarrow> reach any_event cfg s"
  by (induction rule: reach.induct) (auto intro: reach.intros simp: any_event_def)

section \<open>The fold over the topics in Shutdown\<close>

text \<open>
  One induction for all the invariants: what \<open>Close\<close> keeps for one topic, \<open>Shutdown\<close>
  keeps.
\<close>

lemma Shutdown_invariant:
  assumes ord: "distinct (map fst ord)"
      "\<forall>(n, ids) \<in> set ord. \<exists>t. fmlookup (topics m) n = Some t \<and> enumerates ids (subscribers t)"
    and init: "I m w"
    and topic: "\<And>m w n t. I m w \<Longrightarrow> fmlookup (topics m) n = Some t \<Longrightarrow> topic_ok t"
    and close: "\<And>m w n t. I m w \<Longrightarrow> fmlookup (topics m) n = Some t \<Longrightarrow> \<not> closed t \<Longrightarrow>
      I (set_topic n (closed_topic t) m) (closed_world t w)"
  shows "\<exists>m' w'. Shutdown ord m w = Some (m', w') \<and> I m' w'"
  using ord init
proof (induction ord arbitrary: m w)
  case Nil
  then show ?case by simp
next
  case (Cons entry ord)
  obtain n ids where entry: "entry = (n, ids)" by (cases entry)
  with Cons.prems obtain t where t: "fmlookup (topics m) n = Some t"
    and ids: "enumerates ids (subscribers t)" by auto
  have ok: "topic_ok t" using topic Cons.prems(3) t .
  have rest: "\<forall>(k, is) \<in> set ord. \<exists>u. fmlookup (topics (set_topic n t' m)) k = Some u
      \<and> enumerates is (subscribers u)" for t'
    using Cons.prems(1,2) entry by (force simp: image_iff)
  from ok ids show ?case
  proof (cases rule: Close_cases [where w = w])
    case already
    from t have "set_topic n t m = m" by (rule set_topic_same)
    with already t entry Cons.IH [of m w] Cons.prems rest [of t] show ?thesis by simp
  next
    case now
    with t entry Cons.IH [of "set_topic n (closed_topic t) m" "closed_world t w"]
      Cons.prems rest [of "closed_topic t"] close [OF Cons.prems(3) t]
    show ?thesis by simp
  qed
qed

end
