(* ===== verification/SystemProps.thy ===== *)
theory SystemProps
  imports System
begin

text \<open>
  What holds in every reachable state of the transition system, and what a run of
  the system can and cannot do.
\<close>

section \<open>The invariant of the system\<close>

definition sys_ok :: "sys \<Rightarrow> bool" where [inv_defs]:
  "sys_ok s \<longleftrightarrow> mgr_ok (mgr s) \<and>
     (\<forall>i n pkt st. calls s i = Some (n, pkt, st) \<and> \<not> idle (calls s i)
        \<longrightarrow> n \<in> fmdom' (topics (mgr s)))"

lemma NewSubscriberSession_ok:
  "NewSubscriberSession sid qsz w = Some (sub, w') \<Longrightarrow>
   sub_ok sub \<and> sub_id sub = sid \<and> wmetrics w' = wmetrics w"
  by (auto simp: NewSubscriberSession_def new_context_def sub_ok_def make_chan_Some_iff chan_ok_def
      split: option.splits)

lemma NewPublisherSession_id:
  "NewPublisherSession pid w = (p, w') \<Longrightarrow> pub_id p = pid \<and> wmetrics w' = wmetrics w"
  by (auto simp: NewPublisherSession_def new_context_def)

lemma mgr_ok_topic_update:
  assumes "mgr_ok m" and "fmlookup (topics m) n = Some t" and "topic_ok t'"
    and "t_name t' = t_name t" and "t_cfg t' = t_cfg t"
    and "chan_cap (inch t') = chan_cap (inch t)"
    and "fmsize (subscribers t') \<le> fmsize (subscribers t)"
  shows "mgr_ok (set_topic n t' m)"
  using assms mgr_okD [OF assms(1,2)] by (intro mgr_ok_set_topic) (simp_all add: topic_fits_def)

text \<open>The late \<open>Close\<close> and the fan-out, as functions of the topic they start from.\<close>

lemma run_pending_close_cases:
  assumes "topic_ok t" and "enumerates ids (subscribers t)"
    and "run_pending_close ids t w = Some (t', w')"
  obtains (none) "t' = t" "w' = w"
    | (already) k where "closed t" "t' = t\<lparr>pendingCloses := k\<rparr>" "w' = w"
    | (now) k where "\<not> closed t" "t' = closed_topic (t\<lparr>pendingCloses := k\<rparr>)"
        "w' = closed_world t w"
proof (cases "pendingCloses t")
  case 0
  with assms(3) none show ?thesis by (simp add: run_pending_close_def)
next
  case (Suc k)
  let ?t = "t\<lparr>pendingCloses := k\<rparr>"
  have "topic_ok ?t" and "enumerates ids (subscribers ?t)" using assms(1,2) by simp_all
  then show ?thesis
  proof (cases rule: Close_cases [where w = w])
    case already': already
    with Suc assms(3) have "closed t" "t' = ?t" "w' = w"
      by (auto simp: run_pending_close_def)
    then show ?thesis by (rule already)
  next
    case now': now
    moreover have "closed_world ?t w = closed_world t w"
      by (simp add: closed_world_def pub_contexts_def sub_contexts_def)
    ultimately show ?thesis
      using Suc assms(3) now [of k] by (simp add: run_pending_close_def)
  qed
qed

lemma dispatcher_body_cases:
  assumes "topic_ok t" and "enumerates ids (subscribers t)"
    and "dispatcher_body ids t w = Some (t', w')"
  obtains (nothing) "t' = t" "w' = w"
    | (fan) pkt where "dispatcher t = Busy pkt"
        "t' = t\<lparr>subscribers := fmmap (\<lambda>s. enq_sub s pkt) (subscribers t), dispatcher := Looping\<rparr>"
        "w' = count_drops (zero_capacity_subs (subscribers t)) (with_metrics IncPacketsDispatched w)"
proof (cases "dispatcher t")
  case (Busy pkt)
  with assms fan show ?thesis by (simp add: dispatcher_body_Busy)
qed (use assms nothing in \<open>simp_all add: dispatcher_body_def\<close>)

lemma sys_step_mgr_ok:
  assumes "sys_step s e s'" and "mgr_ok (mgr s)"
  shows "mgr_ok (mgr s')"
  using assms
proof (induction rule: sys_step.induct)
  case publisher_registers
  then show ?case by (simp add: RegisterPublisher_ok)
next
  case (publisher_leaves n s m' w')
  then show ?case using UnregisterPublisher_ok [of "mgr s" n "wld s"] by simp
next
  case (subscriber_registers sid qsz s sub w1 n e m' w')
  then show ?case
    using RegisterSubscriber_ok NewSubscriberSession_ok by (metis sys.select_convs(1) sys.update_convs(1,2) sys.surjective)
next
  case (subscriber_leaves n sid s m' w')
  then show ?case using UnregisterSubscriber_ok [of "mgr s" n sid "wld s"] by simp
next
  case stream_set
  then show ?case by (simp add: SetTopicStream_ok)
next
  case (timer_expires s n t)
  then show ?case
    by (simp add: mgr_ok_topic_update topic_ok_timer_fire mgr_okD(2))
next
  case (close_runs s n t ids t' w')
  then have ok: "topic_ok t" by (simp add: mgr_okD(2))
  from ok close_runs(2,3) show ?case
    by (cases rule: run_pending_close_cases)
       (use close_runs ok in \<open>simp_all add: set_topic_same mgr_ok_topic_update topic_ok_closed_topic\<close>)
next
  case (dispatcher_receives s n t)
  then show ?case
    by (simp add: mgr_ok_topic_update topic_ok_dispatcher_receive mgr_okD(2))
next
  case (dispatcher_fans_out s n t ids t' w')
  then have ok: "topic_ok t" by (simp add: mgr_okD(2))
  from ok dispatcher_fans_out(2,3) show ?case
  proof (cases rule: dispatcher_body_cases)
    case nothing
    with dispatcher_fans_out show ?thesis by (simp add: set_topic_same)
  next
    case (fan pkt)
    with ok have "topic_ok t'" by (simp add: topic_ok_def subs_ok_fmmap)
    with dispatcher_fans_out fan show ?thesis by (simp add: mgr_ok_topic_update)
  qed
next
  case publish_called
  then show ?case by simp
next
  case (publish_selects s i n pkt st t st' t' w')
  then have "topic_fits (mgr s) n t'"
    using publish_select_ok topic_fits_lookup by blast
  with publish_selects show ?case by (simp add: mgr_ok_set_topic)
next
  case (shutdown_runs ord s m' w')
  have "\<exists>m' w'. Shutdown ord (mgr s) (wld s) = Some (m', w') \<and> mgr_ok m'"
  proof (rule Shutdown_invariant [where I = "\<lambda>m w. mgr_ok m"])
    show "mgr_ok (set_topic n (closed_topic t) m)"
      if "mgr_ok m" "fmlookup (topics m) n = Some t" for m n t
      using that topic_fits_closed_topic topic_fits_lookup mgr_ok_set_topic by blast
  qed (use shutdown_runs in \<open>auto simp: shutdown_order_def enumerates_def mgr_okD(2)\<close>)
  with shutdown_runs show ?case by auto
next
  case packet_counted
  then show ?case by simp
qed

section \<open>Topics are never removed and a closed topic stays closed\<close>

definition keeps_topic :: "manager \<Rightarrow> manager \<Rightarrow> bool" where
  "keeps_topic m m' \<longleftrightarrow> m_cfg m' = m_cfg m \<and>
     (\<forall>n t. fmlookup (topics m) n = Some t \<longrightarrow>
       (\<exists>t'. fmlookup (topics m') n = Some t' \<and> (closed t \<longrightarrow> closed t')))"

lemma keeps_topic_refl [simp]: "keeps_topic m m"
  by (simp add: keeps_topic_def)

lemma keeps_topic_trans: "keeps_topic m m' \<Longrightarrow> keeps_topic m' m'' \<Longrightarrow> keeps_topic m m''"
  unfolding keeps_topic_def by metis

lemma keeps_topic_set_topic:
  "(\<And>t. fmlookup (topics m) n = Some t \<Longrightarrow> closed t \<Longrightarrow> closed t') \<Longrightarrow> keeps_topic m (set_topic n t' m)"
  by (simp add: keeps_topic_def)

lemma keeps_topic_count [simp]: "keeps_topic m (m'\<lparr>publisherCount := c\<rparr>) = keeps_topic m m'"
  by (simp add: keeps_topic_def)

lemma RegisterPublisher_keeps:
  "RegisterPublisher n p m w = Some (e, m', w') \<Longrightarrow> keeps_topic m m'"
  by (auto simp: RegisterPublisher_eq topic_or_new_def split: if_splits option.splits
      intro!: keeps_topic_set_topic)

lemma UnregisterPublisher_keeps: "keeps_topic m (fst (UnregisterPublisher n m w))"
  by (auto simp: UnregisterPublisher_def Let_def split_beta split: option.split
      intro!: keeps_topic_set_topic)

lemma RegisterSubscriber_keeps:
  "RegisterSubscriber n sub m w = (e, m', w') \<Longrightarrow> keeps_topic m m'"
  by (auto simp: RegisterSubscriber_def split: if_splits option.splits
      intro!: keeps_topic_set_topic)

lemma UnregisterSubscriber_keeps: "keeps_topic m (fst (UnregisterSubscriber n i m w))"
  by (auto simp: UnregisterSubscriber_eq split: option.split intro!: keeps_topic_set_topic)

lemma SetTopicStream_keeps: "keeps_topic m (SetTopicStream n st m)"
  by (auto simp: SetTopicStream_def split: option.split intro!: keeps_topic_set_topic)

lemma publish_select_closed:
  "publish_select st pkt t w = Some (st', t', w') \<Longrightarrow> closed t' = closed t"
  by (auto simp: publish_select_def split: publish_state.splits send_outcome.splits)

lemma Shutdown_keeps:
  assumes "mgr_ok m" and "shutdown_order ord m"
  shows "\<exists>m' w'. Shutdown ord m w = Some (m', w') \<and> mgr_ok m' \<and> keeps_topic m m'"
proof (rule Shutdown_invariant [where I = "\<lambda>m' w. mgr_ok m' \<and> keeps_topic m m'"])
  show "mgr_ok (set_topic n (closed_topic t) k) \<and> keeps_topic m (set_topic n (closed_topic t) k)"
    if "mgr_ok k \<and> keeps_topic m k" "fmlookup (topics k) n = Some t" for k n t
  proof
    show "mgr_ok (set_topic n (closed_topic t) k)"
      using that topic_fits_closed_topic topic_fits_lookup mgr_ok_set_topic by blast
    have "keeps_topic k (set_topic n (closed_topic t) k)"
      by (rule keeps_topic_set_topic) simp
    with that show "keeps_topic m (set_topic n (closed_topic t) k)"
      by (blast intro: keeps_topic_trans)
  qed
qed (use assms in \<open>auto simp: shutdown_order_def enumerates_def mgr_okD(2)\<close>)

lemma sys_step_keeps:
  assumes "sys_step s e s'" and "mgr_ok (mgr s)"
  shows "keeps_topic (mgr s) (mgr s')"
  using assms
proof (induction rule: sys_step.induct)
  case (publisher_leaves n s m' w')
  then show ?case using UnregisterPublisher_keeps [of "mgr s" n "wld s"] by simp
next
  case (subscriber_leaves n sid s m' w')
  then show ?case using UnregisterSubscriber_keeps [of "mgr s" n sid "wld s"] by simp
next
  case (close_runs s n t ids t' w')
  then have "topic_ok t" by (simp add: mgr_okD(2))
  from this close_runs(2,3) have "closed t \<longrightarrow> closed t'"
    by (cases rule: run_pending_close_cases) auto
  with close_runs(1) show ?case by (auto intro!: keeps_topic_set_topic)
next
  case (dispatcher_fans_out s n t ids t' w')
  then have "topic_ok t" by (simp add: mgr_okD(2))
  from this dispatcher_fans_out(2,3) have "closed t' = closed t"
    by (cases rule: dispatcher_body_cases) auto
  with dispatcher_fans_out(1) show ?case by (auto intro!: keeps_topic_set_topic)
next
  case (publish_selects s i n pkt st t st' t' w')
  then show ?case by (auto dest!: publish_select_closed intro!: keeps_topic_set_topic)
next
  case (shutdown_runs ord s m' w')
  then show ?case using Shutdown_keeps [of "mgr s" ord "wld s"] by auto
qed (auto simp: RegisterPublisher_keeps RegisterSubscriber_keeps SetTopicStream_keeps
      intro!: keeps_topic_set_topic)

section \<open>Reachable states\<close>

lemma sys_ok_start: "sys_ok (start_sys cfg w)"
  by (simp add: sys_ok_def start_sys_def mgr_ok_NewManager)

lemma keeps_topic_dom: "keeps_topic m m' \<Longrightarrow> n \<in> fmdom' (topics m) \<Longrightarrow> n \<in> fmdom' (topics m')"
  by (auto simp: keeps_topic_def fmlookup_dom'_iff)

lemma sys_step_calls:
  assumes "sys_step s e s'" and "calls s' i = Some (n, pkt, st)" and "\<not> idle (calls s' i)"
  shows "calls s i = Some (n, pkt, st) \<or> n \<in> fmdom' (topics (mgr s))"
  using assms
  by (induction rule: sys_step.induct)
     (auto simp: publish_begin_def idle_def fmlookup_dom'_iff split: if_splits option.splits)

lemma sys_step_ok:
  assumes "sys_step s e s'" and "sys_ok s"
  shows "sys_ok s'"
proof -
  have ok: "mgr_ok (mgr s)" using assms(2) by (simp add: sys_ok_def)
  have "mgr_ok (mgr s')" using assms(1) ok by (rule sys_step_mgr_ok)
  moreover have "n \<in> fmdom' (topics (mgr s'))"
    if call: "calls s' i = Some (n, pkt, st)" "\<not> idle (calls s' i)" for i n pkt st
  proof -
    have "n \<in> fmdom' (topics (mgr s))"
      using sys_step_calls [OF assms(1) call] call assms(2) unfolding sys_ok_def by metis
    then show ?thesis by (rule keeps_topic_dom [OF sys_step_keeps [OF assms(1) ok]])
  qed
  ultimately show ?thesis by (auto simp: sys_ok_def)
qed

lemma reach_ok: "reach D cfg s \<Longrightarrow> sys_ok s \<and> m_cfg (mgr s) = cfg"
proof (induction rule: reach.induct)
  case start
  show ?case by (simp add: sys_ok_start) (simp add: start_sys_def NewManager_def)
next
  case (step s e s')
  then have "mgr_ok (mgr s)" by (simp add: sys_ok_def)
  with step sys_step_ok sys_step_keeps [of s e s'] show ?case
    by (auto simp: keeps_topic_def)
qed

lemma reach_mgr_ok: "reach D cfg s \<Longrightarrow> mgr_ok (mgr s)"
  by (simp add: reach_ok [unfolded sys_ok_def])

section \<open>Panics\<close>

lemma publish_select_None_iff:
  "publish_select st pkt t w = None \<longleftrightarrow> st \<in> {Send1, Send2} \<and> chan_closed (inch t)"
  by (auto simp: publish_select_def try_send_iffs split: publish_state.split send_outcome.split)

lemma RegisterPublisher_no_panic:
  "0 \<le> PublisherQueueSize (m_cfg m) \<Longrightarrow> RegisterPublisher n p m w \<noteq> None"
  by (auto simp: RegisterPublisher_eq topic_or_new_def NewTopic_def make_chan_def
      split: option.split)

text \<open>
  With queue sizes that are not negative, the only step of the whole system that can
  panic is a send of a \<open>PublishPacket\<close> that had found the topic open, into a
  channel closed since.
\<close>

lemma sys_panic_only_publish:
  assumes "reach D cfg s" and "0 \<le> PublisherQueueSize cfg" and "sys_panic s e"
    and "\<And>n sid qsz. e = Subscriber_registers n sid qsz \<Longrightarrow> 0 \<le> qsz"
  obtains i n pkt st t where "e = Publish_selects i" and "calls s i = Some (n, pkt, st)"
    and "st \<in> {Send1, Send2}" and "fmlookup (topics (mgr s)) n = Some t" and "closed t"
proof -
  have ok: "mgr_ok (mgr s)" and cfg: "m_cfg (mgr s) = cfg"
    using assms(1) reach_ok by (auto simp: sys_ok_def)
  note topic = mgr_okD(2) [OF ok]
  have "\<exists>i n pkt st t. e = Publish_selects i \<and> calls s i = Some (n, pkt, st)
      \<and> st \<in> {Send1, Send2} \<and> fmlookup (topics (mgr s)) n = Some t \<and> closed t"
    using assms(3)
  proof cases
    case panic_register_publisher
    with assms(2) cfg RegisterPublisher_no_panic show ?thesis by blast
  next
    case (panic_register_subscriber sid qsz n)
    with assms(4) show ?thesis
      by (auto simp: NewSubscriberSession_def new_context_def make_chan_def split: if_splits)
  next
    case (panic_close n t ids)
    with run_pending_close_ok [OF topic [OF panic_close(2)] panic_close(3), of "wld s"]
    show ?thesis by simp
  next
    case (panic_fan_out n t ids)
    with dispatcher_body_ok [OF topic [OF panic_fan_out(2)] panic_fan_out(3), of "wld s"]
    show ?thesis by simp
  next
    case (panic_publish i n pkt st t)
    with topic [of n t] show ?thesis
      by (auto simp: publish_select_None_iff topic_ok_def)
  next
    case (panic_shutdown ord)
    with Shutdown_keeps [OF ok panic_shutdown(2), of "wld s"] show ?thesis by simp
  qed
  with that show ?thesis by blast
qed

section \<open>Invariants under a discipline\<close>

text \<open>
  An invariant of the manager and the world that each operation keeps, where the
  discipline allows the event, holds in every state the discipline can reach.  The
  updates of a topic that concern neither its publisher nor its number of
  subscribers are treated alike.
\<close>

locale manager_invariant =
  fixes D :: "sys \<Rightarrow> event \<Rightarrow> bool" and I :: "manager \<Rightarrow> world \<Rightarrow> bool"
  assumes init: "fresh_world w \<Longrightarrow> I (NewManager cfg) w"
    and gauges: "I m w \<Longrightarrow>
      promActiveSubscribers (wmetrics w') = promActiveSubscribers (wmetrics w) \<Longrightarrow>
      promActivePublishers (wmetrics w') = promActivePublishers (wmetrics w) \<Longrightarrow> I m w'"
    and publisher_in: "I m w \<Longrightarrow> RegisterPublisher n p m w = Some (e, m', w') \<Longrightarrow> I m' w'"
    and publisher_out: "I (mgr s) (wld s) \<Longrightarrow> D s (Publisher_leaves n) \<Longrightarrow>
      UnregisterPublisher n (mgr s) (wld s) = (m', w') \<Longrightarrow> I m' w'"
    and subscriber_in: "I (mgr s) w \<Longrightarrow> D s (Subscriber_registers n (sub_id sub) qsz) \<Longrightarrow>
      RegisterSubscriber n sub (mgr s) w = (e, m', w') \<Longrightarrow> I m' w'"
    and subscriber_out: "I m w \<Longrightarrow> UnregisterSubscriber n i m w = (m', w') \<Longrightarrow> I m' w'"
    and topic_update: "I m w \<Longrightarrow> fmlookup (topics m) n = Some t \<Longrightarrow>
      publisher t' = publisher t \<Longrightarrow> fmsize (subscribers t') = fmsize (subscribers t) \<Longrightarrow>
      I (set_topic n t' m) w"
    and topic_close: "I m w \<Longrightarrow> fmlookup (topics m) n = Some t \<Longrightarrow> \<not> closed t \<Longrightarrow>
      I (set_topic n (closed_topic t) m) (closed_world t w)"
begin

lemma step_keeps:
  assumes "sys_step s e s'" and "mgr_ok (mgr s)" and "D s e" and "I (mgr s) (wld s)"
  shows "I (mgr s') (wld s')"
  using assms
proof (induction rule: sys_step.induct)
  case (publisher_registers pid s p w1 n e m' w')
  then have "I (mgr s) w1" using gauges NewPublisherSession_id by metis
  with publisher_registers show ?case using publisher_in by simp
next
  case (publisher_leaves n s m' w')
  then show ?case using publisher_out by simp
next
  case (subscriber_registers sid qsz s sub w1 n e m' w')
  then have "I (mgr s) w1" and "sub_id sub = sid"
    using gauges NewSubscriberSession_ok by metis+
  with subscriber_registers subscriber_in [of s w1 n sub qsz e m' w'] show ?case by simp
next
  case (subscriber_leaves n sid s m' w')
  then show ?case using subscriber_out by simp
next
  case (stream_set s n st)
  then show ?case
    by (auto simp: SetTopicStream_def intro: topic_update split: option.split)
next
  case (close_runs s n t ids t' w')
  then have "topic_ok t" by (simp add: mgr_okD(2))
  from this close_runs(2,3) show ?case
  proof (cases rule: run_pending_close_cases)
    case (now k)
    have "I (set_topic n (t\<lparr>pendingCloses := k\<rparr>) (mgr s)) (wld s)"
      using close_runs by (intro topic_update) auto
    then have "I (set_topic n (closed_topic (t\<lparr>pendingCloses := k\<rparr>))
          (set_topic n (t\<lparr>pendingCloses := k\<rparr>) (mgr s)))
        (closed_world (t\<lparr>pendingCloses := k\<rparr>) (wld s))"
      using now by (intro topic_close) auto
    moreover have "closed_world (t\<lparr>pendingCloses := k\<rparr>) (wld s) = closed_world t (wld s)"
      by (simp add: closed_world_def pub_contexts_def sub_contexts_def)
    ultimately show ?thesis using now by (simp add: set_topic_def)
  qed (use close_runs in \<open>auto intro: topic_update\<close>)
next
  case (dispatcher_fans_out s n t ids t' w')
  then have "topic_ok t" by (simp add: mgr_okD(2))
  from this dispatcher_fans_out(2,3) show ?case
  proof (cases rule: dispatcher_body_cases)
    case (fan pkt)
    have "I (mgr s) w'"
      using dispatcher_fans_out(5,6) fan by (intro gauges [of "mgr s" "wld s" w']) (simp_all add: metric_defs)
    with dispatcher_fans_out fan show ?thesis by (auto intro: topic_update)
  qed (use dispatcher_fans_out in \<open>auto intro: topic_update\<close>)
next
  case (publish_called s i n st w' pkt)
  then have "I (mgr s) w'"
    by (intro gauges [of "mgr s" "wld s" w'])
       (auto simp: publish_begin_def metric_defs split: option.splits)
  then show ?case by simp
next
  case (publish_selects s i n pkt st t st' t' w')
  then have "I (mgr s) w'"
    by (intro gauges [of "mgr s" "wld s" w'])
       (auto simp: publish_select_def metric_defs split: publish_state.splits send_outcome.splits)
  moreover have "publisher t' = publisher t" "subscribers t' = subscribers t"
    using publish_selects(3)
    by (auto simp: publish_select_def split: publish_state.splits send_outcome.splits)
  ultimately show ?case using publish_selects(2) by (auto intro: topic_update)
next
  case (shutdown_runs ord s m' w')
  have "\<exists>m' w'. Shutdown ord (mgr s) (wld s) = Some (m', w') \<and> mgr_ok m' \<and> I m' w'"
  proof (rule Shutdown_invariant [where I = "\<lambda>m w. mgr_ok m \<and> I m w"])
    show "mgr_ok (set_topic n (closed_topic t) m) \<and> I (set_topic n (closed_topic t) m) (closed_world t w)"
      if "mgr_ok m \<and> I m w" "fmlookup (topics m) n = Some t" "\<not> closed t" for m w n t
      using that topic_fits_closed_topic topic_fits_lookup mgr_ok_set_topic topic_close by blast
  qed (use shutdown_runs in \<open>auto simp: shutdown_order_def enumerates_def mgr_okD(2)\<close>)
  with shutdown_runs show ?case by auto
next
  case (packet_counted s)
  then have "I (mgr s) (with_metrics IncPacketsDispatched (with_metrics IncPacketsReceived (wld s)))"
    by (intro gauges [of "mgr s" "wld s"
          "with_metrics IncPacketsDispatched (with_metrics IncPacketsReceived (wld s))"])
       (simp_all add: metric_defs)
  then show ?case by simp
qed (auto intro: topic_update)

lemma reach_invariant: "reach D cfg s \<Longrightarrow> I (mgr s) (wld s)"
proof (induction rule: reach.induct)
  case start
  then show ?case using init by (simp add: start_sys_def)
next
  case (step s e s')
  then show ?case using step_keeps reach_mgr_ok by blast
qed

end

text \<open>
  The two disciplines: a subscriber registers under an identifier the topic does not
  have, and a publisher leaves a topic it publishes.
\<close>

definition fresh_subscribers :: "sys \<Rightarrow> event \<Rightarrow> bool" where
  "fresh_subscribers s e \<longleftrightarrow> (case e of
       Subscriber_registers n sid _ \<Rightarrow> \<not> subscribed (mgr s) n sid
     | _ \<Rightarrow> True)"

definition paired_publishers :: "sys \<Rightarrow> event \<Rightarrow> bool" where
  "paired_publishers s e \<longleftrightarrow> (case e of
       Publisher_leaves n \<Rightarrow> topic_published (mgr s) n
     | _ \<Rightarrow> True)"

interpretation sub_gauge: manager_invariant fresh_subscribers gauge_exact
proof (unfold_locales, goal_cases)
  case (1 w cfg)
  then show ?case
    by (simp add: gauge_exact_def total_subscribers_def NewManager_def fresh_world_def)
next
  case (2 m w w')
  then show ?case by (simp add: gauge_exact_def)
next
  case (3 m w n p e m' w')
  then show ?case by (rule gauge_exact_RegisterPublisher)
next
  case (4 s n m' w')
  then show ?case using gauge_exact_UnregisterPublisher [of "mgr s" "wld s" n] by simp
next
  case (5 s w n sub qsz e m' w')
  then show ?case
    using gauge_exact_RegisterSubscriber [of "mgr s" w n sub e m' w'] by (simp add: fresh_subscribers_def)
next
  case (6 m w n i m' w')
  then show ?case using gauge_exact_UnregisterSubscriber [of m w n i] by simp
next
  case (7 m w n t t')
  then show ?case by (simp add: gauge_exact_def total_subscribers_same)
next
  case (8 m w n t)
  then show ?case by (simp add: gauge_exact_closed)
qed

text \<open>The counter and the publisher gauge, together.\<close>

definition publishers_exact :: "manager \<Rightarrow> world \<Rightarrow> bool" where [inv_defs]:
  "publishers_exact m w \<longleftrightarrow>
     count_exact m \<and> promActivePublishers (wmetrics w) = active_publishers m"

lemma active_publishers_RegisterPublisher:
  assumes "count_exact m" and "RegisterPublisher n p m w = Some (e, m', w')"
  shows "promActivePublishers (wmetrics w') - active_publishers m'
    = promActivePublishers (wmetrics w) - active_publishers m"
proof -
  have "count_exact m'" using assms by (rule count_exact_RegisterPublisher)
  with assms show ?thesis
    by (auto simp: RegisterPublisher_eq count_exact_def metric_defs split: if_splits)
qed

lemma active_publishers_UnregisterPublisher:
  assumes "topic_published m n"
  shows "active_publishers (fst (UnregisterPublisher n m w)) = active_publishers m - 1"
    and "promActivePublishers (wmetrics (snd (UnregisterPublisher n m w)))
           = promActivePublishers (wmetrics w) - 1"
proof -
  from assms obtain t where t: "fmlookup (topics m) n = Some t"
    by (auto simp: topic_published_def)
  have "active_publishers (fst (UnregisterPublisher n m w))
      = active_publishers (set_topic n (fst (RemovePublisher t w)) m)"
    by (rule active_publishers_cong) (simp add: UnregisterPublisher_Some [OF t])
  with assms show "active_publishers (fst (UnregisterPublisher n m w)) = active_publishers m - 1"
    by (simp add: active_publishers_set_topic HasPublisher_def)
  show "promActivePublishers (wmetrics (snd (UnregisterPublisher n m w)))
      = promActivePublishers (wmetrics w) - 1"
    by (simp add: UnregisterPublisher_Some [OF t] metric_defs)
qed

lemma publishers_exact_same:
  assumes "publishers_exact m w" and "fmlookup (topics m) n = Some t"
    and "publisher t' = publisher t"
    and "promActivePublishers (wmetrics w') = promActivePublishers (wmetrics w)"
  shows "publishers_exact (set_topic n t' m) w'"
  using assms active_publishers_same_publisher [OF assms(2,3)]
  by (simp add: publishers_exact_def count_exact_def)

interpretation pub_count: manager_invariant paired_publishers publishers_exact
proof (unfold_locales, goal_cases)
  case (1 w cfg)
  then show ?case
    by (simp add: publishers_exact_def count_exact_NewManager)
       (simp add: active_publishers_def NewManager_def fresh_world_def)
next
  case (2 m w w')
  then show ?case by (simp add: publishers_exact_def)
next
  case (3 m w n p e m' w')
  then show ?case
    using active_publishers_RegisterPublisher [of m n p w e m' w']
    by (auto simp: publishers_exact_def intro: count_exact_RegisterPublisher)
next
  case (4 s n m' w')
  then have "topic_published (mgr s) n" by (simp add: paired_publishers_def)
  with 4 count_exact_UnregisterPublisher [of "mgr s" n "wld s"]
    active_publishers_UnregisterPublisher [of "mgr s" n "wld s"]
  show ?case by (simp add: publishers_exact_def)
next
  case (5 s w n sub qsz e m' w')
  then show ?case
    by (auto simp: RegisterSubscriber_def metric_defs intro: publishers_exact_same
        split: option.splits if_splits)
next
  case (6 m w n i m' w')
  then show ?case
    by (auto simp: UnregisterSubscriber_eq metric_defs intro: publishers_exact_same
        split: option.splits if_splits)
next
  case (7 m w n t t')
  then show ?case by (intro publishers_exact_same [of m w n t]) simp_all
next
  case (8 m w n t)
  then show ?case
    by (intro publishers_exact_same [of m w n t]) (simp_all add: closed_world_def metric_defs)
qed

section \<open>The steps as steps of the registry\<close>

definition expired_at_most :: "string set \<Rightarrow> registry \<Rightarrow> registry \<Rightarrow> bool" where
  "expired_at_most N r r' \<longleftrightarrow>
     (\<forall>n. r' n = r n \<or> n \<in> N \<and> r' n = map_option (\<lambda>(p, ss). (p, {})) (r n))"

fun spec_step :: "config \<Rightarrow> event \<Rightarrow> registry \<Rightarrow> registry \<Rightarrow> bool" where
  "spec_step cfg (Publisher_registers n pid) r r' \<longleftrightarrow>
     r' = snd (spec_register_publisher cfg n pid r)"
| "spec_step cfg (Publisher_leaves n) r r' \<longleftrightarrow> r' = spec_unregister_publisher n r"
| "spec_step cfg (Subscriber_registers n sid qsz) r r' \<longleftrightarrow>
     r' = snd (spec_register_subscriber cfg n sid r)"
| "spec_step cfg (Subscriber_leaves n sid) r r' \<longleftrightarrow> r' = spec_unregister_subscriber n sid r"
| "spec_step cfg (Close_runs n ids) r r' \<longleftrightarrow> expired_at_most {n} r r'"
| "spec_step cfg (Shutdown_runs ord) r r' \<longleftrightarrow> expired_at_most (set (map fst ord)) r r'"
| "spec_step cfg (Stream_set n st) r r' \<longleftrightarrow> r' = r"
| "spec_step cfg (Timer_expires n) r r' \<longleftrightarrow> r' = r"
| "spec_step cfg (Dispatcher_receives n) r r' \<longleftrightarrow> r' = r"
| "spec_step cfg (Dispatcher_fans_out n ids) r r' \<longleftrightarrow> r' = r"
| "spec_step cfg (Publish_called i n pkt) r r' \<longleftrightarrow> r' = r"
| "spec_step cfg (Publish_selects i) r r' \<longleftrightarrow> r' = r"
| "spec_step cfg Packet_counted r r' \<longleftrightarrow> r' = r"

lemma registry_of_topic_update:
  assumes "fmlookup (topics m) n = Some t" and "publisher t' = publisher t"
    and "fmdom' (subscribers t') = fmdom' (subscribers t)"
  shows "registry_of (set_topic n t' m) = registry_of m"
  using assms by (intro registry_of_same) (simp_all add: topic_entry_def)

lemma spec_expire_at_most: "n \<in> N \<Longrightarrow> expired_at_most N r (spec_expire n r)"
  by (auto simp: expired_at_most_def spec_expire_def)

lemma expired_at_most_refl [simp]: "expired_at_most N r r"
  by (simp add: expired_at_most_def)

lemma expired_at_most_trans:
  assumes "expired_at_most N r r'" and "expired_at_most N r' r''"
  shows "expired_at_most N r r''"
  unfolding expired_at_most_def
proof
  fix n
  from assms have "r' n = r n \<or> n \<in> N \<and> r' n = map_option (\<lambda>(p, ss). (p, {})) (r n)"
    and "r'' n = r' n \<or> n \<in> N \<and> r'' n = map_option (\<lambda>(p, ss). (p, {})) (r' n)"
    by (auto simp: expired_at_most_def)
  then show "r'' n = r n \<or> n \<in> N \<and> r'' n = map_option (\<lambda>(p, ss). (p, {})) (r n)"
    by (cases "r n") auto
qed

lemma Shutdown_registry:
  assumes "mgr_ok m" and "shutdown_order ord m" and "Shutdown ord m w = Some (m', w')"
  shows "expired_at_most (fmdom' (topics m)) (registry_of m) (registry_of m')"
proof -
  let ?I = "\<lambda>m' w. mgr_ok m' \<and> fmdom' (topics m') = fmdom' (topics m) \<and>
    expired_at_most (fmdom' (topics m)) (registry_of m) (registry_of m')"
  have "\<exists>m' w'. Shutdown ord m w = Some (m', w') \<and> ?I m' w'"
  proof (rule Shutdown_invariant [where I = ?I])
    fix k v n t
    assume I: "?I k v" and t: "fmlookup (topics k) n = Some t"
    then have n: "n \<in> fmdom' (topics m)" using fmdom'I by metis
    have "mgr_ok (set_topic n (closed_topic t) k)"
      using I t topic_fits_closed_topic topic_fits_lookup mgr_ok_set_topic by blast
    moreover have "fmdom' (topics (set_topic n (closed_topic t) k)) = fmdom' (topics m)"
      using I n by (auto simp: insert_absorb)
    moreover have "expired_at_most (fmdom' (topics m)) (registry_of m)
        (registry_of (set_topic n (closed_topic t) k))"
      using I n spec_expire_at_most expired_at_most_trans
      by (simp add: closed_topic_refines [OF t]) blast
    ultimately show "?I (set_topic n (closed_topic t) k) (closed_world t v)" by simp
  qed (use assms(1,2) in \<open>auto simp: shutdown_order_def enumerates_def mgr_okD(2)\<close>)
  with assms(3) show ?thesis by simp
qed

lemma sys_step_refines_registry:
  assumes "sys_step s e s'" and "mgr_ok (mgr s)" and "count_exact (mgr s)"
    and "0 \<le> PublisherQueueSize (m_cfg (mgr s))"
  shows "spec_step (m_cfg (mgr s)) e (registry_of (mgr s)) (registry_of (mgr s'))"
  using assms
proof (induction rule: sys_step.induct)
  case (publisher_registers pid s p w1 n e m' w')
  then have "pub_id p = pid" using NewPublisherSession_id by blast
  with publisher_registers RegisterPublisher_refines [of "mgr s" n p w1] show ?case by auto
next
  case (publisher_leaves n s m' w')
  then show ?case using UnregisterPublisher_refines [of n "mgr s" "wld s"] by simp
next
  case (subscriber_registers sid qsz s sub w1 n e m' w')
  then have "sub_id sub = sid" using NewSubscriberSession_ok by blast
  with subscriber_registers RegisterSubscriber_refines [of n sub "mgr s" w1] show ?case by simp
next
  case (subscriber_leaves n sid s m' w')
  then show ?case using UnregisterSubscriber_refines [of n sid "mgr s" "wld s"] by simp
next
  case (stream_set s n st)
  then show ?case
    by (simp add: SetTopicStream_def registry_of_topic_update split: option.split)
next
  case (close_runs s n t ids t' w')
  then have "topic_ok t" by (simp add: mgr_okD(2))
  from this close_runs(2,3) show ?case
  proof (cases rule: run_pending_close_cases)
    case (now k)
    then have "topic_entry t' = topic_entry (closed_topic t)" by (simp add: topic_entry_def)
    then have "registry_of (set_topic n t' (mgr s)) = spec_expire n (registry_of (mgr s))"
      using closed_topic_refines [OF close_runs(1)] by (simp add: registry_of_set_topic)
    then show ?thesis by (simp add: spec_expire_at_most)
  qed (use close_runs in \<open>simp_all add: registry_of_topic_update\<close>)
next
  case (dispatcher_fans_out s n t ids t' w')
  then have "topic_ok t" by (simp add: mgr_okD(2))
  from this dispatcher_fans_out(2,3) show ?case
    by (cases rule: dispatcher_body_cases)
       (use dispatcher_fans_out in \<open>simp_all add: registry_of_topic_update\<close>)
next
  case (publish_selects s i n pkt st t st' t' w')
  then have "publisher t' = publisher t" "subscribers t' = subscribers t"
    by (auto simp: publish_select_def split: publish_state.splits send_outcome.splits)
  with publish_selects show ?case by (simp add: registry_of_topic_update)
next
  case (shutdown_runs ord s m' w')
  then show ?case
    using Shutdown_registry [of "mgr s" ord "wld s" m' w']
    by (simp add: shutdown_order_def enumerates_def)
qed (simp_all add: registry_of_topic_update)

end
