(* ===== verification/Execution.thy ===== *)
theory Execution
  imports SystemProps
begin

text \<open>
  The transition system as an executable function: each event determines its step, so
  a list of events determines a run.  Concrete runs are evaluated with it, as
  witnesses and to exhibit behaviours.
\<close>

fun exec_event :: "event \<Rightarrow> sys \<Rightarrow> sys option" where
  "exec_event (Publisher_registers n pid) s =
     (let (p, w1) = NewPublisherSession pid (wld s)
      in map_option (\<lambda>(_, m', w'). s\<lparr>mgr := m', wld := w'\<rparr>) (RegisterPublisher n p (mgr s) w1))"
| "exec_event (Publisher_leaves n) s =
     (let (m', w') = UnregisterPublisher n (mgr s) (wld s) in Some (s\<lparr>mgr := m', wld := w'\<rparr>))"
| "exec_event (Subscriber_registers n sid qsz) s =
     (case NewSubscriberSession sid qsz (wld s) of
        None \<Rightarrow> None
      | Some (sub, w1) \<Rightarrow> (let (_, m', w') = RegisterSubscriber n sub (mgr s) w1
          in Some (s\<lparr>mgr := m', wld := w'\<rparr>)))"
| "exec_event (Subscriber_leaves n sid) s =
     (let (m', w') = UnregisterSubscriber n sid (mgr s) (wld s) in Some (s\<lparr>mgr := m', wld := w'\<rparr>))"
| "exec_event (Stream_set n st) s = Some (s\<lparr>mgr := SetTopicStream n st (mgr s)\<rparr>)"
| "exec_event (Timer_expires n) s = (case fmlookup (topics (mgr s)) n of
       None \<Rightarrow> None
     | Some t \<Rightarrow> Some (s\<lparr>mgr := set_topic n (timer_fire t) (mgr s)\<rparr>))"
| "exec_event (Close_runs n ids) s = (case fmlookup (topics (mgr s)) n of
       None \<Rightarrow> None
     | Some t \<Rightarrow> if enumerates ids (subscribers t)
         then map_option (\<lambda>(t', w'). s\<lparr>mgr := set_topic n t' (mgr s), wld := w'\<rparr>)
           (run_pending_close ids t (wld s))
         else None)"
| "exec_event (Dispatcher_receives n) s = (case fmlookup (topics (mgr s)) n of
       None \<Rightarrow> None
     | Some t \<Rightarrow> Some (s\<lparr>mgr := set_topic n (dispatcher_receive t) (mgr s)\<rparr>))"
| "exec_event (Dispatcher_fans_out n ids) s = (case fmlookup (topics (mgr s)) n of
       None \<Rightarrow> None
     | Some t \<Rightarrow> if enumerates ids (subscribers t)
         then map_option (\<lambda>(t', w'). s\<lparr>mgr := set_topic n t' (mgr s), wld := w'\<rparr>)
           (dispatcher_body ids t (wld s))
         else None)"
| "exec_event (Publish_called i n pkt) s =
     (if idle (calls s i)
      then (let (st, w') = publish_begin n (mgr s) (wld s)
        in Some (s\<lparr>wld := w', calls := (calls s)(i \<mapsto> (n, pkt, st))\<rparr>))
      else None)"
| "exec_event (Publish_selects i) s = (case calls s i of
       None \<Rightarrow> None
     | Some (n, pkt, st) \<Rightarrow> (case fmlookup (topics (mgr s)) n of
           None \<Rightarrow> None
         | Some t \<Rightarrow> map_option (\<lambda>(st', t', w'). s\<lparr>mgr := set_topic n t' (mgr s), wld := w',
             calls := (calls s)(i \<mapsto> (n, pkt, st'))\<rparr>) (publish_select st pkt t (wld s))))"
| "exec_event (Shutdown_runs ord) s =
     (if shutdown_order ord (mgr s)
      then map_option (\<lambda>(m', w'). s\<lparr>mgr := m', wld := w'\<rparr>) (Shutdown ord (mgr s) (wld s))
      else None)"
| "exec_event Packet_counted s = Some
     (s\<lparr>wld := with_metrics IncPacketsDispatched (with_metrics IncPacketsReceived (wld s))\<rparr>)"

lemma exec_event_sound: "exec_event e s = Some s' \<Longrightarrow> sys_step s e s'"
  by (cases e)
     (auto intro: sys_step.intros split: prod.splits option.splits if_splits)

lemma exec_event_complete: "sys_step s e s' \<Longrightarrow> exec_event e s = Some s'"
  by (induction rule: sys_step.induct) (simp_all add: Let_def)

lemma exec_event_iff: "sys_step s e s' \<longleftrightarrow> exec_event e s = Some s'"
  using exec_event_sound exec_event_complete by blast

text \<open>A run whose events a discipline allows.\<close>

fun run_under :: "(sys \<Rightarrow> event \<Rightarrow> bool) \<Rightarrow> event list \<Rightarrow> sys \<Rightarrow> sys option" where
  "run_under D [] s = Some s"
| "run_under D (e # es) s = (if D s e
     then (case exec_event e s of None \<Rightarrow> None | Some s' \<Rightarrow> run_under D es s') else None)"

lemma run_under_reach: "run_under D es s = Some s' \<Longrightarrow> reach D cfg s \<Longrightarrow> reach D cfg s'"
proof (induction es arbitrary: s)
  case Nil
  then show ?case by simp
next
  case (Cons e es)
  then obtain s1 where "D s e" "exec_event e s = Some s1" "run_under D es s1 = Some s'"
    by (auto split: if_splits option.splits)
  with Cons show ?case by (meson exec_event_sound reach.step)
qed

lemma run_from_start: "run_under D es (init_sys cfg) = Some s \<Longrightarrow> reach D cfg s"
  using run_under_reach reach_init by blast

text \<open>A small configuration for concrete runs.\<close>

definition demo_config :: config where
  "demo_config = \<lparr>PublishPort = 9191, SubscribePort = 9192, MaxPublishers = 2,
     MaxSubscribersPerTopic = 3, PublisherQueueSize = 2, SubscriberQueueSize = 2,
     PublisherGracePeriod = 5000000000, EnableUDP = False, PublisherUDPBase = 0,
     SubscriberUDPBase = 0\<rparr>"

definition demo_packet :: "int \<Rightarrow> inbound_packet" where
  "demo_packet k = \<lparr>Track = k, Raw = []\<rparr>"

lemmas session_eval =
  init_sys_def start_sys_def init_world_def metrics_init_def NewManager_def demo_config_def
  NewPublisherSession_def NewSubscriberSession_def new_context_def make_chan_def
  with_metrics_def call_cancel_def metric_defs Let_def

lemmas topic_eval =
  NewTopic_def HasPublisher_def SetPublisher_def SetStream_def Stream_def RemovePublisher_def
  close_stream_def AddSubscriber_def RemoveSubscriber_def Close_def close_chan_def
  timer_fire_def run_pending_close_def dispatcher_receive_def dispatcher_body_def deliver_def
  Enqueue_def try_send_def try_recv_def discard_oldest_def fmsize_fmupd fmsize_fmdrop enumerates_def

lemmas manager_eval =
  set_topic_def RegisterPublisher_def UnregisterPublisher_def RegisterSubscriber_def
  UnregisterSubscriber_def SetTopicStream_def GetTopicStream_def publish_begin_def
  publish_select_def publish_selects_def PublishPacket_def idle_def shutdown_order_def
  any_event_def

lemmas run_eval = session_eval topic_eval manager_eval

end
