(* ===== verification/TopicTheorems.thy ===== *)
theory TopicTheorems
  imports Execution
begin

text \<open>
  The properties of the topic manager and of its topics: what the registrations do,
  what the counters and gauges mean, what happens to the packets, when a topic is
  closed, and which panics are possible.
\<close>

section \<open>Registrations\<close>

text \<open>C1: As long as a publisher only leaves a topic that has one, every step of the
  manager, its timers, dispatchers and publishing calls is a step of the abstract
  registry of publishers and subscribers, in every reachable state.\<close>

theorem manager_refines_registry:
  assumes "reach paired_publishers cfg s" and "0 \<le> PublisherQueueSize cfg"
    and "sys_step s e s'"
  shows "spec_step cfg e (registry_of (mgr s)) (registry_of (mgr s'))"
proof -
  have "m_cfg (mgr s) = cfg" using assms(1) reach_ok by blast
  moreover have "count_exact (mgr s)"
    using pub_count.reach_invariant [OF assms(1)] by (simp add: publishers_exact_def)
  ultimately show ?thesis
    using sys_step_refines_registry [OF assms(3) reach_mgr_ok [OF assms(1)]] assms(2) by simp
qed

definition two_publishers :: "event list" where
  "two_publishers = [Publisher_registers ''a'' ''p1'', Publisher_registers ''b'' ''p2'',
     Subscriber_registers ''a'' ''s1'' 2]"

theorem manager_refines_registry_witness:
  "\<exists>s (s' :: sys). reach paired_publishers demo_config s
     \<and> spec_step demo_config (Publisher_leaves ''a'') (registry_of (mgr s)) (registry_of (mgr s'))
     \<and> registry_of (mgr s) ''a'' = Some (Some ''p1'', {''s1''})
     \<and> registry_of (mgr s') ''a'' = Some (None, {''s1''})"
proof -
  obtain s where s: "run_under paired_publishers two_publishers (init_sys demo_config) = Some s"
    and a: "registry_of (mgr s) ''a'' = Some (Some ''p1'', {''s1''})"
    and leaves: "registry_of (fst (UnregisterPublisher ''a'' (mgr s) (wld s))) ''a'' = Some (None, {''s1''})"
    by (simp add: two_publishers_def run_eval paired_publishers_def registry_of_def topic_entry_def)
  from s have reach: "reach paired_publishers demo_config s" by (rule run_from_start)
  define s' where "s' = s\<lparr>mgr := fst (UnregisterPublisher ''a'' (mgr s) (wld s)),
      wld := snd (UnregisterPublisher ''a'' (mgr s) (wld s))\<rparr>"
  have "sys_step s (Publisher_leaves ''a'') s'"
    unfolding s'_def by (rule sys_step.publisher_leaves) simp
  from manager_refines_registry [OF reach _ this]
  have "spec_step demo_config (Publisher_leaves ''a'') (registry_of (mgr s)) (registry_of (mgr s'))"
    by (simp add: demo_config_def)
  moreover have "registry_of (mgr s') ''a'' = Some (None, {''s1''})"
    using leaves by (simp add: s'_def)
  ultimately show ?thesis
    using reach a by (metis (no_types, lifting))
qed

text \<open>A registration of a publisher returns, and returns the error the registry
  prescribes: the limit first (on the number of topics that have a publisher), then a
  topic that is taken; otherwise the publisher is recorded and the subscribers of the
  topic stay.\<close>

theorem RegisterPublisher_result:
  assumes "reach paired_publishers cfg s" and "0 \<le> PublisherQueueSize cfg"
  shows "\<exists>e m' w'. RegisterPublisher n p (mgr s) w = Some (e, m', w')
    \<and> spec_register_publisher cfg n (pub_id p) (registry_of (mgr s)) = (e, registry_of m')
    \<and> (e \<noteq> None \<longrightarrow> m' = mgr s \<and> w' = w)"
proof -
  have cfg: "m_cfg (mgr s) = cfg" using assms(1) reach_ok by blast
  have "count_exact (mgr s)"
    using pub_count.reach_invariant [OF assms(1)] by (simp add: publishers_exact_def)
  from RegisterPublisher_refines [OF this, of n p w] assms(2) cfg
  obtain e m' w' where reg: "RegisterPublisher n p (mgr s) w = Some (e, m', w')"
    and spec: "spec_register_publisher cfg n (pub_id p) (registry_of (mgr s)) = (e, registry_of m')"
    by auto
  moreover have "e \<noteq> None \<longrightarrow> m' = mgr s \<and> w' = w"
    using reg by (auto simp: RegisterPublisher_eq split: if_splits)
  ultimately show ?thesis by blast
qed

theorem RegisterPublisher_result_witness:
  "\<exists>e m' w'. RegisterPublisher ''t'' \<lparr>pub_id = ''p'', pub_ctx = 0, pub_cancel = None\<rparr>
      (mgr (init_sys demo_config)) init_world = Some (e, m', w') \<and> e = None"
  using RegisterPublisher_result [OF reach_init, where cfg = demo_config and n = "''t''"
      and p = "\<lparr>pub_id = ''p'', pub_ctx = 0, pub_cancel = None\<rparr>" and w = init_world]
  by (auto simp: demo_config_def init_sys_def start_sys_def registry_of_NewManager spec_register_publisher_def
      published_names_def)

text \<open>The counter of publishers and the gauge of active publishers are the number of
  topics that have a publisher, and that number respects the configured limit (0 means
  no limit), in every state reached while publishers only leave topics they publish.\<close>

theorem publisher_count_exact:
  assumes "reach paired_publishers cfg s"
  shows "publisherCount (mgr s) = active_publishers (mgr s)
    \<and> promActivePublishers (wmetrics (wld s)) = active_publishers (mgr s)
    \<and> (0 < MaxPublishers cfg \<longrightarrow> active_publishers (mgr s) \<le> MaxPublishers cfg)"
proof -
  have "publishers_exact (mgr s) (wld s)" by (rule pub_count.reach_invariant [OF assms])
  moreover have "m_cfg (mgr s) = cfg" using assms reach_ok by blast
  ultimately show ?thesis
    using mgr_ok_countD(2) [OF reach_mgr_ok [OF assms]]
    by (simp add: publishers_exact_def count_exact_def)
qed

theorem publisher_count_exact_witness:
  "\<exists>s. run_under paired_publishers two_publishers (init_sys demo_config) = Some s
     \<and> active_publishers (mgr s) = 2 \<and> publisherCount (mgr s) = 2"
proof -
  obtain s where s: "run_under paired_publishers two_publishers (init_sys demo_config) = Some s"
    and two: "publisherCount (mgr s) = 2"
    by (simp add: two_publishers_def run_eval paired_publishers_def)
  with publisher_count_exact [OF run_from_start [OF s]] show ?thesis by auto
qed

text \<open>C2: No topic ever has more subscribers than the configured limit (none at all when
  the limit is 0 or negative), whatever the events.\<close>

theorem subscriber_limit:
  assumes "reach any_event cfg s" and "fmlookup (topics (mgr s)) n = Some t"
  shows "fmsize (subscribers t) \<le> max 0 (MaxSubscribersPerTopic cfg)"
  using mgr_okD(5) [OF reach_mgr_ok [OF assms(1)] assms(2)] reach_ok [OF assms(1)] by simp

theorem subscriber_limit_witness:
  "\<exists>s t. run_under any_event two_publishers (init_sys demo_config) = Some s
     \<and> fmlookup (topics (mgr s)) ''a'' = Some t \<and> fmsize (subscribers t) = 1
     \<and> fmsize (subscribers t) \<le> max 0 (MaxSubscribersPerTopic demo_config)"
proof -
  obtain s t where s: "run_under any_event two_publishers (init_sys demo_config) = Some s"
    and t: "fmlookup (topics (mgr s)) ''a'' = Some t" "fmsize (subscribers t) = 1"
    by (simp add: two_publishers_def run_eval)
  with subscriber_limit [OF run_from_start [OF s] t(1)] show ?thesis by auto
qed



text \<open>A subscriber that registers under an identifier its topic already has is counted
  although the number of subscribers does not change: the gauge drifts by one.\<close>

theorem duplicate_subscriber_drift:
  assumes "subscribed m n (sub_id sub)" and "RegisterSubscriber n sub m w = (None, m', w')"
  shows "total_subscribers m' = total_subscribers m
    \<and> promActiveSubscribers (wmetrics w') = promActiveSubscribers (wmetrics w) + 1"
  using RegisterSubscriber_gauge [OF assms(2)] assms(1) by simp

definition demo_sub :: subscriber_session where
  "demo_sub = \<lparr>sub_id = ''s1'', sub_ctx = 9, sub_cancel = Some 9,
     queue = \<lparr>chan_buf = [], chan_cap = 2, chan_closed = False\<rparr>\<rparr>"

theorem duplicate_subscriber_drift_witness:
  "\<exists>s m' w'. run_under fresh_subscribers two_publishers (init_sys demo_config) = Some s
     \<and> RegisterSubscriber ''a'' demo_sub (mgr s) (wld s) = (None, m', w')
     \<and> total_subscribers m' = 1 \<and> promActiveSubscribers (wmetrics w') = 2"
proof -
  obtain s where s: "run_under fresh_subscribers two_publishers (init_sys demo_config) = Some s"
    and one: "promActiveSubscribers (wmetrics (wld s)) = 1"
    and sub: "subscribed (mgr s) ''a'' (sub_id demo_sub)"
    and reg: "fst (RegisterSubscriber ''a'' demo_sub (mgr s) (wld s)) = None"
    by (simp add: two_publishers_def run_eval fresh_subscribers_def subscribed_def demo_sub_def)
  have total: "total_subscribers (mgr s) = 1"
    using sub_gauge.reach_invariant [OF run_from_start [OF s]] one by (simp add: gauge_exact_def)
  obtain m' w' where r: "RegisterSubscriber ''a'' demo_sub (mgr s) (wld s) = (None, m', w')"
    using reg by (cases "RegisterSubscriber ''a'' demo_sub (mgr s) (wld s)") auto
  from duplicate_subscriber_drift [OF sub r] total one have "total_subscribers m' = 1"
    and "promActiveSubscribers (wmetrics w') = 2" by simp_all
  with s r show ?thesis by blast
qed

text \<open>\<open>UnregisterPublisher\<close> on a topic that has no publisher still takes one off the
  counter and the gauge, although the number of published topics stays the same.\<close>

theorem unpaired_unregister_miscounts:
  assumes "fmlookup (topics m) n = Some t" and "publisher t = None" and "0 < publisherCount m"
  shows "active_publishers (fst (UnregisterPublisher n m w)) = active_publishers m
    \<and> publisherCount (fst (UnregisterPublisher n m w)) = publisherCount m - 1
    \<and> promActivePublishers (wmetrics (snd (UnregisterPublisher n m w)))
        = promActivePublishers (wmetrics w) - 1"
proof -
  have "RemovePublisher t w = (t, w)" using assms(2) by (simp add: RemovePublisher_def)
  with assms show ?thesis
    by (simp add: UnregisterPublisher_def metric_defs set_topic_same
        active_publishers_cong [of "m\<lparr>publisherCount := publisherCount m - 1\<rparr>" m])
qed

theorem unpaired_unregister_miscounts_witness:
  "\<exists>s. run_under any_event (two_publishers @ [Publisher_leaves ''a'']) (init_sys demo_config) = Some s
     \<and> publisherCount (fst (UnregisterPublisher ''a'' (mgr s) (wld s))) = 0
     \<and> active_publishers (fst (UnregisterPublisher ''a'' (mgr s) (wld s))) = 1"
proof -
  obtain s t where s: "run_under any_event (two_publishers @ [Publisher_leaves ''a''])
        (init_sys demo_config) = Some s"
    and paired: "run_under paired_publishers (two_publishers @ [Publisher_leaves ''a''])
        (init_sys demo_config) = Some s"
    and t: "fmlookup (topics (mgr s)) ''a'' = Some t" "publisher t = None"
    and one: "publisherCount (mgr s) = 1"
    by (simp add: two_publishers_def run_eval paired_publishers_def topic_published_def)
  have "active_publishers (mgr s) = 1"
    using pub_count.reach_invariant [OF run_from_start [OF paired]] one
    by (simp add: publishers_exact_def count_exact_def)
  with unpaired_unregister_miscounts [OF t, of "wld s"] s one show ?thesis by auto
qed

end
