(* ===== verification/LifecycleTheorems.thy ===== *)
theory LifecycleTheorems
  imports Execution
begin

text \<open>
  The properties about the life of a topic: the grace period, closing, what a closed
  topic does, and the panics.
\<close>

section \<open>Panics\<close>

text \<open>C4: With queue sizes that are not negative, no reachable step of the manager, the
  dispatchers, the timers or the publishing calls panics, except one: a send of a
  \<open>PublishPacket\<close> that found the topic open, after the topic was closed.\<close>

theorem publish_is_the_only_panic:
  assumes "reach any_event cfg s" and "0 \<le> PublisherQueueSize cfg" and "sys_panic s e"
    and "\<forall>n sid qsz. e = Subscriber_registers n sid qsz \<longrightarrow> 0 \<le> qsz"
  shows "\<exists>i n pkt st t. e = Publish_selects i \<and> calls s i = Some (n, pkt, st)
    \<and> st \<in> {Send1, Send2} \<and> fmlookup (topics (mgr s)) n = Some t \<and> closed t"
  using assms by (auto elim!: sys_panic_only_publish)

definition closed_under_a_call :: "event list" where
  "closed_under_a_call = [Publisher_registers ''t'' ''p'', Publish_called 0 ''t'' (demo_packet 1),
     Publisher_leaves ''t'', Timer_expires ''t'', Close_runs ''t'' []]"

lemma closed_under_a_call_run:
  obtains s t where "run_under any_event closed_under_a_call (init_sys demo_config) = Some s"
    and "calls s 0 = Some (''t'', demo_packet 1, Send1)"
    and "fmlookup (topics (mgr s)) ''t'' = Some t" and "chan_closed (inch t)"
  by (simp add: closed_under_a_call_def run_eval)

theorem publish_is_the_only_panic_witness:
  "\<exists>s t. run_under any_event closed_under_a_call (init_sys demo_config) = Some s
     \<and> sys_panic s (Publish_selects 0)
     \<and> fmlookup (topics (mgr s)) ''t'' = Some t \<and> closed t"
proof -
  obtain s t where s: "run_under any_event closed_under_a_call (init_sys demo_config) = Some s"
    and call: "calls s 0 = Some (''t'', demo_packet 1, Send1)"
    and t: "fmlookup (topics (mgr s)) ''t'' = Some t" "chan_closed (inch t)"
    by (rule closed_under_a_call_run)
  have panic: "sys_panic s (Publish_selects 0)"
    using t(2) by (intro sys_panic.panic_publish [OF call t(1)]) (simp add: publish_select_None_iff)
  with publish_is_the_only_panic [OF run_from_start [OF s] _ panic] call t(1) s
  show ?thesis by (auto simp: demo_config_def)
qed

text \<open>C5: The check of \<open>closed\<close> in \<open>PublishPacket\<close> does not prevent the panic: a call that
  has passed it can find the channel closed by the grace timer, and there is such a
  run of six events.\<close>

theorem send_on_closed_channel_reachable:
  "\<exists>s. reach any_event demo_config s \<and> sys_panic s (Publish_selects 0)"
proof -
  obtain s t where s: "run_under any_event closed_under_a_call (init_sys demo_config) = Some s"
    and call: "calls s 0 = Some (''t'', demo_packet 1, Send1)"
    and t: "fmlookup (topics (mgr s)) ''t'' = Some t" "chan_closed (inch t)"
    by (rule closed_under_a_call_run)
  have "sys_panic s (Publish_selects 0)"
    using t(2) by (intro sys_panic.panic_publish [OF call t(1)]) (simp add: publish_select_None_iff)
  with run_from_start [OF s] show ?thesis by blast
qed

section \<open>Closing a topic\<close>

text \<open>C6: \<open>Close\<close> on an open topic cancels exactly the contexts of its publisher and of
  its subscribers, takes the subscribers off the gauge and off the topic, keeps the
  packets already queued, and does not depend on the order of its loop; a second
  \<open>Close\<close> does nothing.\<close>

theorem Close_spec:
  assumes "topic_ok t" and "\<not> closed t" and "enumerates ids (subscribers t)"
  shows "\<exists>t' w'. Close ids t w = Some (t', w')
    \<and> closed t' \<and> chan_closed (inch t') \<and> subscribers t' = fmempty
    \<and> chan_buf (inch t') = chan_buf (inch t) \<and> publisher t' = publisher t
    \<and> cancelled w' = cancelled w \<union> pub_contexts t \<union> sub_contexts t
    \<and> promActiveSubscribers (wmetrics w')
        = promActiveSubscribers (wmetrics w) - fmsize (subscribers t)
    \<and> (\<forall>ids'. Close ids' t' w' = Some (t', w'))"
proof -
  have "chan_closed (inch (closed_topic t))" by (simp add: closed_topic_def)
  then show ?thesis
    using closed_world_gauge [of t w]
    by (simp add: Close_open [OF assms] Close_closed) (simp add: closed_world_def)
qed

definition demo_topic :: topic where
  "demo_topic = \<lparr>t_name = ''t'',
     publisher = Some \<lparr>pub_id = ''p'', pub_ctx = 0, pub_cancel = Some 0\<rparr>, stream = Some 7,
     subscribers = fmupd ''s'' \<lparr>sub_id = ''s'', sub_ctx = 1, sub_cancel = Some 1,
       queue = \<lparr>chan_buf = [], chan_cap = 2, chan_closed = False\<rparr>\<rparr> fmempty,
     inch = \<lparr>chan_buf = [demo_packet 1], chan_cap = 2, chan_closed = False\<rparr>,
     t_cfg = demo_config, closed = False, graceTimer = None, dispatcher = Looping,
     pendingCloses = 0\<rparr>"

lemma demo_topic_ok: "topic_ok demo_topic"
  by (simp add: demo_topic_def topic_ok_def chan_ok_def subs_ok_def sub_ok_def)

lemma demo_topic_order: "enumerates [''s''] (subscribers demo_topic)"
  by (simp add: demo_topic_def enumerates_def)

theorem Close_spec_witness:
  "\<exists>t' w'. Close [''s''] demo_topic init_world = Some (t', w')
     \<and> cancelled w' = {0, 1} \<and> promActiveSubscribers (wmetrics w') = - 1"
proof -
  have "\<not> closed demo_topic" by (simp add: demo_topic_def)
  from Close_spec [OF demo_topic_ok this demo_topic_order, of init_world]
  obtain t' w' where "Close [''s''] demo_topic init_world = Some (t', w')"
    and "cancelled w' = pub_contexts demo_topic \<union> sub_contexts demo_topic"
    and "promActiveSubscribers (wmetrics w') = - fmsize (subscribers demo_topic)"
    by (auto simp: init_world_def metrics_init_def)
  moreover have "pub_contexts demo_topic \<union> sub_contexts demo_topic = {0, 1}"
    by (auto simp: pub_contexts_def sub_contexts_def demo_topic_def)
  moreover have "fmsize (subscribers demo_topic) = 1"
    by (simp add: demo_topic_def fmsize_fmupd)
  ultimately show ?thesis by auto
qed

text \<open>C7: No event reopens a closed topic or removes it: a step of the system leaves it in
  the map, closed, and every packet published to it later is refused.\<close>

theorem closed_is_forever:
  assumes "reach any_event cfg s" and "fmlookup (topics (mgr s)) n = Some t" and "closed t"
    and "sys_step s e s'"
  shows "\<exists>t'. fmlookup (topics (mgr s')) n = Some t' \<and> closed t'
    \<and> (\<forall>pkt w. PublishPacket n pkt (mgr s') w = Some (False, mgr s', with_metrics IncPacketsReceived w))"
proof -
  have "keeps_topic (mgr s) (mgr s')"
    using assms(4) reach_mgr_ok [OF assms(1)] by (rule sys_step_keeps)
  with assms(2,3) obtain t' where "fmlookup (topics (mgr s')) n = Some t'" "closed t'"
    by (auto simp: keeps_topic_def)
  then show ?thesis by (auto simp: PublishPacket_closed)
qed

theorem closed_is_forever_witness:
  "\<exists>s s' t'. run_under any_event closed_under_a_call (init_sys demo_config) = Some s
     \<and> exec_event (Publisher_registers ''t'' ''q'') s = Some s'
     \<and> fmlookup (topics (mgr s')) ''t'' = Some t' \<and> HasPublisher t' \<and> closed t'"
proof -
  obtain s t s' u where s: "run_under any_event closed_under_a_call (init_sys demo_config) = Some s"
    and t: "fmlookup (topics (mgr s)) ''t'' = Some t" "closed t"
    and s': "exec_event (Publisher_registers ''t'' ''q'') s = Some s'"
    and u: "fmlookup (topics (mgr s')) ''t'' = Some u" "HasPublisher u"
    by (simp add: closed_under_a_call_def run_eval)
  from closed_is_forever [OF run_from_start [OF s] t exec_event_sound [OF s']] u
  have "closed u" by auto
  with s s' u show ?thesis by blast
qed

text \<open>C8: After the grace period a publisher is accepted on the closed topic and counted
  as active, but every packet it publishes is refused.\<close>

theorem late_publisher_is_accepted_but_mute:
  assumes "fmlookup (topics m) n = Some t" and "closed t" and "publisher t = None"
    and "\<not> limit_reached m"
  shows "\<exists>m' w'. RegisterPublisher n p m w = Some (None, m', w')
    \<and> topic_published m' n \<and> publisherCount m' = publisherCount m + 1
    \<and> (\<forall>pkt v. \<exists>v'. PublishPacket n pkt m' v = Some (False, m', v'))"
proof -
  have "\<not> topic_published m n" and new: "topic_or_new m n = Some t"
    using assms(1,3) by (simp_all add: topic_published_def HasPublisher_def topic_or_new_def)
  then have "RegisterPublisher n p m w = Some (None,
      (set_topic n (SetPublisher p t) m)\<lparr>publisherCount := publisherCount m + 1\<rparr>,
      with_metrics IncTotalPublishers (with_metrics IncActivePublishers w))"
    using assms(4) by (simp add: RegisterPublisher_eq)
  then show ?thesis
    using assms(2) PublishPacket_closed
      [of "(set_topic n (SetPublisher p t) m)\<lparr>publisherCount := publisherCount m + 1\<rparr>" n
        "SetPublisher p t"]
    by (simp add: topic_published_def HasPublisher_def)
qed

theorem late_publisher_is_accepted_but_mute_witness:
  "\<exists>s m' w'. run_under any_event closed_under_a_call (init_sys demo_config) = Some s
     \<and> RegisterPublisher ''t'' \<lparr>pub_id = ''q'', pub_ctx = 5, pub_cancel = Some 5\<rparr> (mgr s) (wld s)
         = Some (None, m', w')
     \<and> topic_published m' ''t''"
proof -
  obtain s t where s: "run_under any_event closed_under_a_call (init_sys demo_config) = Some s"
    and t: "fmlookup (topics (mgr s)) ''t'' = Some t" "closed t" "publisher t = None"
    and l: "\<not> limit_reached (mgr s)"
    by (simp add: closed_under_a_call_def run_eval limit_reached_def)
  from late_publisher_is_accepted_but_mute [OF t l] s show ?thesis by blast
qed

section \<open>The grace period\<close>

text \<open>A topic that a publisher holds with no late \<open>Close\<close> on its way.\<close>

definition held :: "topic \<Rightarrow> bool" where
  "held t \<longleftrightarrow> publisher t \<noteq> None \<and> \<not> closed t \<and> pendingCloses t = 0"

definition held_in :: "sys \<Rightarrow> string \<Rightarrow> bool" where
  "held_in s n \<longleftrightarrow> (\<exists>t. fmlookup (topics (mgr s)) n = Some t \<and> held t)"

lemma held_step:
  assumes step: "sys_step s e s'" and ok: "mgr_ok (mgr s)" and held: "held_in s n"
    and e: "e \<noteq> Publisher_leaves n" "\<And>ord. e \<noteq> Shutdown_runs ord"
  shows "held_in s' n"
proof -
  obtain t where t: "fmlookup (topics (mgr s)) n = Some t" and h: "held t"
    using held by (auto simp: held_in_def)
  have topic_ok: "topic_ok t" using ok t by (rule mgr_okD)
  have set: "held_in (s\<lparr>mgr := set_topic k u (mgr s)\<rparr>) n"
    if "fmlookup (topics (mgr s)) k = Some v" "held v \<longrightarrow> held u" for k u v
    using that t h by (auto simp: held_in_def)
  show ?thesis
    using step
  proof cases
    case (publisher_registers pid p w1 k e m' w')
    then show ?thesis
      using t h by (auto simp: RegisterPublisher_eq held_in_def held_def topic_published_def
          topic_or_new_def HasPublisher_def split: if_splits)
  next
    case (publisher_leaves k m' w')
    with e have "k \<noteq> n" by auto
    with publisher_leaves t h show ?thesis
      by (auto simp: UnregisterPublisher_def Let_def split_beta held_in_def split: option.splits)
  next
    case (subscriber_registers sid qsz sub w1 k e m' w')
    then show ?thesis
      using t h by (auto simp: RegisterSubscriber_def held_in_def held_def split: option.splits if_splits)
  next
    case (subscriber_leaves k sid m' w')
    then have "m' = fst (UnregisterSubscriber k sid (mgr s) (wld s))" by simp
    with subscriber_leaves t h show ?thesis
      by (auto simp: UnregisterSubscriber_eq held_in_def held_def split: option.splits)
  next
    case (stream_set k st)
    then show ?thesis
      using t h by (auto simp: SetTopicStream_def held_in_def held_def split: option.splits)
  next
    case (timer_expires k v)
    have "held v \<longrightarrow> held (timer_fire v)"
      using mgr_okD(2) [OF ok timer_expires(3)]
      by (auto simp: held_def topic_ok_def timer_fire_def)
    with timer_expires set show ?thesis by blast
  next
    case (close_runs k v ids t' w')
    have "held v \<longrightarrow> held t'"
      using close_runs(5) by (auto simp: held_def run_pending_close_def)
    with close_runs set [of k v t'] show ?thesis by (simp add: held_in_def)
  next
    case (dispatcher_receives k v)
    with set [of k v "dispatcher_receive v"] show ?thesis by (simp add: held_def)
  next
    case (dispatcher_fans_out k v ids t' w')
    have "held v \<longrightarrow> held t'"
      using mgr_okD(2) [OF ok dispatcher_fans_out(3)] dispatcher_fans_out(4,5)
      by (cases rule: dispatcher_body_cases) (auto simp: held_def)
    with dispatcher_fans_out set [of k v t'] show ?thesis by (simp add: held_in_def)
  next
    case (publish_called i k st w' pkt)
    then show ?thesis using held by (simp add: held_in_def)
  next
    case (publish_selects i k pkt st v st' t' w')
    then have "held v \<longrightarrow> held t'"
      by (auto simp: held_def publish_select_def split: publish_state.splits send_outcome.splits)
    with publish_selects set [of k v t'] show ?thesis by (simp add: held_in_def)
  next
    case (shutdown_runs ord m' w')
    with e(2) [of ord] show ?thesis by simp
  next
    case packet_counted
    with held show ?thesis by (simp add: held_in_def)
  qed
qed

text \<open>C9: A publisher that holds its topic keeps it open: until it leaves, or the server
  shuts down, no sequence of events closes the topic, whatever its timers did before.\<close>

theorem held_topic_stays_open:
  assumes "reach any_event cfg s" and "held_in s n"
    and "run_under (\<lambda>_ e. e \<noteq> Publisher_leaves n \<and> (\<forall>ord. e \<noteq> Shutdown_runs ord)) es s = Some s'"
  shows "held_in s' n"
  using assms
proof (induction es arbitrary: s)
  case Nil
  then show ?case by simp
next
  case (Cons e es)
  then obtain s1 where e: "e \<noteq> Publisher_leaves n" "\<forall>ord. e \<noteq> Shutdown_runs ord"
    and s1: "exec_event e s = Some s1"
    and rest: "run_under (\<lambda>_ e. e \<noteq> Publisher_leaves n \<and> (\<forall>ord. e \<noteq> Shutdown_runs ord)) es s1
      = Some s'"
    by (auto split: if_splits option.splits)
  have step: "sys_step s e s1" using s1 by (rule exec_event_sound)
  have "any_event s e" by (simp add: any_event_def)
  with Cons.prems(1) have "reach any_event cfg s1" using step by (rule reach.step)
  moreover have "held_in s1 n"
    using held_step [OF step reach_mgr_ok [OF Cons.prems(1)] Cons.prems(2)] e by blast
  ultimately show ?case using rest by (rule Cons.IH)
qed

text \<open>A publisher that registers within the grace period holds the topic again: the
  timer is stopped, the subscribers are still there and the queued packets too.\<close>

theorem reconnect_within_grace:
  assumes "fmlookup (topics m) n = Some t" and "publisher t = None"
    and "\<not> closed t" and "pendingCloses t = 0" and "\<not> limit_reached m"
  shows "\<exists>m' w' t'. RegisterPublisher n p m w = Some (None, m', w')
    \<and> fmlookup (topics m') n = Some t' \<and> held t' \<and> graceTimer t' = None
    \<and> subscribers t' = subscribers t \<and> inch t' = inch t"
proof -
  have "\<not> topic_published m n" and "topic_or_new m n = Some t"
    using assms(1,2) by (simp_all add: topic_published_def HasPublisher_def topic_or_new_def)
  with assms(3-5) show ?thesis by (simp add: RegisterPublisher_eq held_def)
qed


definition back_in_time :: "event list" where
  "back_in_time = [Publisher_registers ''t'' ''p'', Subscriber_registers ''t'' ''s'' 2,
     Publisher_leaves ''t'']"

theorem reconnect_within_grace_witness:
  "\<exists>s m' w' t'. run_under any_event back_in_time (init_sys demo_config) = Some s
     \<and> RegisterPublisher ''t'' \<lparr>pub_id = ''q'', pub_ctx = 5, pub_cancel = Some 5\<rparr> (mgr s) (wld s)
         = Some (None, m', w')
     \<and> fmlookup (topics m') ''t'' = Some t' \<and> held t' \<and> fmsize (subscribers t') = 1"
proof -
  obtain s t where s: "run_under any_event back_in_time (init_sys demo_config) = Some s"
    and t: "fmlookup (topics (mgr s)) ''t'' = Some t" "publisher t = None" "\<not> closed t"
      "pendingCloses t = 0"
    and size: "fmsize (subscribers t) = 1" and l: "\<not> limit_reached (mgr s)"
    by (simp add: back_in_time_def run_eval limit_reached_def)
  from reconnect_within_grace [OF t l] s size
  show ?thesis by metis
qed

theorem held_topic_stays_open_witness:
  "\<exists>s s'. run_under any_event (back_in_time @ [Publisher_registers ''t'' ''q''])
       (init_sys demo_config) = Some s
     \<and> run_under (\<lambda>_ e. e \<noteq> Publisher_leaves ''t'' \<and> (\<forall>ord. e \<noteq> Shutdown_runs ord))
         [Timer_expires ''t'', Close_runs ''t'' [''s'']] s = Some s'
     \<and> held_in s' ''t''"
proof -
  obtain s s' where s: "run_under any_event (back_in_time @ [Publisher_registers ''t'' ''q''])
       (init_sys demo_config) = Some s"
    and held: "held_in s ''t''"
    and s': "run_under (\<lambda>_ e. e \<noteq> Publisher_leaves ''t'' \<and> (\<forall>ord. e \<noteq> Shutdown_runs ord))
         [Timer_expires ''t'', Close_runs ''t'' [''s'']] s = Some s'"
    by (simp add: back_in_time_def run_eval held_in_def held_def)
  from held_topic_stays_open [OF run_from_start [OF s] held s'] s s' show ?thesis by blast
qed

end
