(* ===== verification/PacketTheorems.thy ===== *)
theory PacketTheorems
  imports Execution
begin

text \<open>
  What happens to the packets: what a queue keeps when it overflows, that the fan-out
  reaches every subscriber whatever the order of the range loop, what the counters
  count, and what the status page of the manager shows.
\<close>

section \<open>Publishing a sequence of packets\<close>

text \<open>Calls of \<open>PublishPacket\<close> in a row; the results are collected.\<close>

fun publish_all ::
    "string \<Rightarrow> inbound_packet list \<Rightarrow> manager \<Rightarrow> world \<Rightarrow> (bool list \<times> manager \<times> world) option" where
  "publish_all n [] m w = Some ([], m, w)"
| "publish_all n (pkt # pkts) m w = (case PublishPacket n pkt m w of
       None \<Rightarrow> None
     | Some (b, m', w') \<Rightarrow>
         map_option (\<lambda>(bs, m'', w''). (b # bs, m'', w'')) (publish_all n pkts m' w'))"

definition count_received :: "nat \<Rightarrow> world \<Rightarrow> world" where
  "count_received k w = (with_metrics IncPacketsReceived ^^ k) w"

lemma count_received_simps [simp]:
  "count_received 0 w = w"
  "count_received k (with_metrics IncPacketsReceived w) = count_received (Suc k) w"
  "promPacketsReceived (wmetrics (count_received k w)) = promPacketsReceived (wmetrics w) + int k"
  "promPacketsDropped (wmetrics (count_received k w)) = promPacketsDropped (wmetrics w)"
proof -
  show "count_received k (with_metrics IncPacketsReceived w) = count_received (Suc k) w"
    by (simp add: count_received_def funpow_swap1)
qed (induction k; simp add: count_received_def metric_defs)+

lemma set_topic_twice [simp]: "set_topic n u (set_topic n t m) = set_topic n u m"
  by (simp add: set_topic_def fmap_ext)

lemma enq_topic_world:
  "queueing t \<Longrightarrow> fst (enq_topic (t, w) pkt) = fst (enq_topic (t, v) pkt)"
  by (simp add: publish_selects_queueing(3))

lemma publish_all_queueing:
  assumes "fmlookup (topics m) n = Some t" and "queueing t"
  shows "publish_all n pkts m w = Some (replicate (length pkts) True,
     set_topic n (fst (foldl enq_topic (t, v) pkts)) m, count_received (length pkts) w)"
  using assms
proof (induction pkts arbitrary: m w t v)
  case Nil
  then show ?case by (simp add: set_topic_same)
next
  case (Cons pkt pkts)
  define q where "q = enq_topic (t, v) pkt"
  have q: "fst (enq_topic (t, w) pkt) = fst q"
    unfolding q_def using Cons.prems(2) by (rule enq_topic_world)
  have live: "queueing (fst q)"
    unfolding q_def using inq.enq_live [of "(t, v)" pkt] Cons.prems(2) by simp
  have "fmlookup (topics (set_topic n (fst q) m)) n = Some (fst q)" by (simp add: set_topic_def)
  from Cons.IH [OF this live, where v = "snd q"] show ?case
    by (simp add: PublishPacket_queueing [OF Cons.prems] q flip: q_def)
qed

text \<open>C11: A publisher that sends while the dispatcher is busy never blocks and is never
  refused: every call returns true, the inbound queue ends with exactly the last
  \<open>PublisherQueueSize\<close> packets in order, and the packets that were pushed out are
  counted as received and not as dropped.\<close>

theorem publish_keeps_newest:
  assumes "fmlookup (topics m) n = Some t" and "queueing t"
  shows "\<exists>m' w' t'. publish_all n pkts m w = Some (replicate (length pkts) True, m', w')
    \<and> fmlookup (topics m') n = Some t'
    \<and> chan_buf (inch t') = lastn (chan_cap (inch t)) (chan_buf (inch t) @ pkts)
    \<and> promPacketsReceived (wmetrics w') = promPacketsReceived (wmetrics w) + int (length pkts)
    \<and> promPacketsDropped (wmetrics w') = promPacketsDropped (wmetrics w)"
proof -
  have "chan_buf (inch (fst (foldl enq_topic (t, w) pkts)))
      = lastn (chan_cap (inch t)) (chan_buf (inch t) @ pkts)"
    using inq.foldl_enq [of "(t, w)" pkts] assms(2) by simp
  then show ?thesis
    using publish_all_queueing [OF assms, of pkts w w] by (simp add: set_topic_def)
qed

text \<open>A topic right after its first publisher, before the dispatcher runs.\<close>

definition one_publisher :: "event list" where
  "one_publisher = [Publisher_registers ''t'' ''p'']"

theorem publish_keeps_newest_witness:
  "\<exists>s m' w' t'. run_under any_event one_publisher (init_sys demo_config) = Some s
     \<and> publish_all ''t'' (map demo_packet [1, 2, 3, 4]) (mgr s) (wld s)
         = Some ([True, True, True, True], m', w')
     \<and> fmlookup (topics m') ''t'' = Some t'
     \<and> chan_buf (inch t') = map demo_packet [3, 4]
     \<and> promPacketsDropped (wmetrics w') = 0"
proof -
  obtain s t where s: "run_under any_event one_publisher (init_sys demo_config) = Some s"
    and t: "fmlookup (topics (mgr s)) ''t'' = Some t" "\<not> closed t" "dispatcher t \<noteq> Parked"
      "chan_cap (inch t) = 2" "chan_buf (inch t) = []"
    and drop: "promPacketsDropped (wmetrics (wld s)) = 0"
    by (simp add: one_publisher_def run_eval)
  have "topic_ok t" using mgr_okD(2) [OF reach_mgr_ok [OF run_from_start [OF s]] t(1)] .
  with t have q: "queueing t" by (simp add: queueing_def)
  have four: "replicate (length (map demo_packet [1, 2, 3, 4])) True = [True, True, True, True]"
    by simp
  have "lastn 2 ([] @ map demo_packet [1, 2, 3, 4]) = map demo_packet [3, 4]"
    by (simp add: lastn_def)
  with publish_keeps_newest [OF t(1) q, where pkts = "map demo_packet [1, 2, 3, 4]" and w = "wld s"]
  show ?thesis using s t(4,5) drop unfolding four by metis
qed

section \<open>The fan-out\<close>

text \<open>C12: Whatever the order in which the range loop visits the subscribers, a turn of the
  dispatcher gives the packet to every one of them: its queue becomes the last
  \<open>queueSize\<close> elements of the old queue followed by the packet, nothing else of it
  changes; one packet is counted as dispatched, and as dropped only once for each
  subscriber whose queue has no capacity.\<close>

theorem fan_out_reaches_every_subscriber:
  assumes "reach any_event cfg s" and "fmlookup (topics (mgr s)) n = Some t"
    and "dispatcher t = Busy pkt" and "enumerates ids (subscribers t)"
  shows "\<exists>t' w'. dispatcher_body ids t (wld s) = Some (t', w')
    \<and> dispatcher t' = Looping \<and> inch t' = inch t
    \<and> fmdom' (subscribers t') = fmdom' (subscribers t)
    \<and> (\<forall>k u. fmlookup (subscribers t) k = Some u \<longrightarrow>
        (\<exists>u'. fmlookup (subscribers t') k = Some u' \<and> sub_ctx u' = sub_ctx u
          \<and> chan_buf (queue u') = lastn (chan_cap (queue u)) (chan_buf (queue u) @ [pkt])))
    \<and> promPacketsDispatched (wmetrics w') = promPacketsDispatched (wmetrics (wld s)) + 1
    \<and> promPacketsDropped (wmetrics w') = promPacketsDropped (wmetrics (wld s))
        + int (card {k. \<exists>u. fmlookup (subscribers t) k = Some u \<and> chan_cap (queue u) = 0})"
proof -
  have ok: "topic_ok t" using mgr_okD(2) [OF reach_mgr_ok [OF assms(1)] assms(2)] .
  then have subs: "subs_ok (subscribers t)" by (simp add: topic_ok_def)
  have each: "chan_buf (queue (enq_sub u pkt)) = lastn (chan_cap (queue u)) (chan_buf (queue u) @ [pkt])
      \<and> sub_ctx (enq_sub u pkt) = sub_ctx u" if "fmlookup (subscribers t) k = Some u" for k u
  proof -
    have "sub_ok u" using subs that by (auto simp: subs_ok_def)
    then show ?thesis
    proof (cases u rule: sub_ok_cases)
      case room
      with \<open>sub_ok u\<close> show ?thesis by (simp add: enq_sub_def Enqueue_room lastn_snoc_room)
    next
      case full
      then show ?thesis by (simp add: subq.enq_lastn enq_sub_def Enqueue_full lastn_snoc_full sub_live_def)
    next
      case none
      with \<open>sub_ok u\<close> show ?thesis by (simp add: enq_sub_def Enqueue_no_capacity lastn_def)
    qed
  qed
  have zero: "zero_capacity_subs (subscribers t)
      = card {k. \<exists>u. fmlookup (subscribers t) k = Some u \<and> chan_cap (queue u) = 0}"
    unfolding zero_capacity_subs_def no_capacity_def
    by (rule arg_cong [where f = card]) (auto split: option.splits)
  show ?thesis
    using each zero
    by (auto simp: dispatcher_body_def assms(3) fanout_all [OF subs assms(4)] metric_defs)
qed

definition packet_in_flight :: "event list" where
  "packet_in_flight = [Publisher_registers ''t'' ''p'', Subscriber_registers ''t'' ''s1'' 1,
     Subscriber_registers ''t'' ''s2'' 0, Publish_called 0 ''t'' (demo_packet 7), Publish_selects 0,
     Dispatcher_receives ''t'']"

theorem fan_out_reaches_every_subscriber_witness:
  "\<exists>s t t' w' u'. run_under any_event packet_in_flight (init_sys demo_config) = Some s
     \<and> fmlookup (topics (mgr s)) ''t'' = Some t
     \<and> dispatcher_body [''s2'', ''s1''] t (wld s) = Some (t', w')
     \<and> fmlookup (subscribers t') ''s1'' = Some u' \<and> chan_buf (queue u') = [demo_packet 7]
     \<and> promPacketsDispatched (wmetrics w') = 1"
proof -
  obtain s t u where s: "run_under any_event packet_in_flight (init_sys demo_config) = Some s"
    and t: "fmlookup (topics (mgr s)) ''t'' = Some t" "dispatcher t = Busy (demo_packet 7)"
      "enumerates [''s2'', ''s1''] (subscribers t)"
    and u: "fmlookup (subscribers t) ''s1'' = Some u" "chan_buf (queue u) = []" "chan_cap (queue u) = 1"
    and disp: "promPacketsDispatched (wmetrics (wld s)) = 0"
    by (auto simp: packet_in_flight_def run_eval)
  have one: "lastn 1 ([] @ [demo_packet 7]) = [demo_packet 7]" by (simp add: lastn_def)
  from fan_out_reaches_every_subscriber [OF run_from_start [OF s] t] u one disp s t(1)
  show ?thesis by fastforce
qed

section \<open>One subscriber\<close>

fun dequeue_all :: "nat \<Rightarrow> subscriber_session \<Rightarrow> inbound_packet list" where
  "dequeue_all 0 s = []"
| "dequeue_all (Suc k) s = (case Dequeue s of
       ((Some pkt, True), s') \<Rightarrow> pkt # dequeue_all k s'
     | _ \<Rightarrow> [])"

lemma dequeue_all_buf: "dequeue_all k s = take k (chan_buf (queue s))"
proof (induction k arbitrary: s)
  case (Suc k)
  then show ?case
    by (cases "chan_buf (queue s)") (auto simp: Dequeue_def try_recv_def split: if_splits)
qed simp

fun enqueue_all :: "inbound_packet list \<Rightarrow> subscriber_session \<Rightarrow> subscriber_session option" where
  "enqueue_all [] s = Some s"
| "enqueue_all (pkt # pkts) s = Option.bind (Enqueue s pkt) (\<lambda>(_, s'). enqueue_all pkts s')"

lemma enqueue_all_foldl:
  "sub_live s \<Longrightarrow> enqueue_all pkts s = Some (foldl enq_sub s pkts)"
proof (induction pkts arbitrary: s)
  case (Cons pkt pkts)
  then have "sub_ok s" by (simp add: sub_live_def)
  with Cons subq.enq_live [OF Cons.prems] show ?case by (simp add: Enqueue_enq_sub)
qed simp

text \<open>What a subscriber reads is what was put into its queue: after any sequence of
  \<open>Enqueue\<close>, the calls of \<open>Dequeue\<close> return the packets in the order they came, all of
  them when they fit and the newest \<open>queueSize\<close> of them otherwise, and then report an
  empty queue.\<close>

theorem enqueue_dequeue_roundtrip:
  assumes "sub_live s" and "chan_cap (queue s) \<le> k"
  shows "\<exists>s'. enqueue_all pkts s = Some s'
    \<and> dequeue_all k s' = lastn (chan_cap (queue s)) (chan_buf (queue s) @ pkts)"
proof -
  have "length (lastn (chan_cap (queue s)) (chan_buf (queue s) @ pkts)) \<le> k"
    using assms(2) by simp
  then show ?thesis
    using subq.foldl_enq [OF assms(1), of pkts]
    by (simp add: enqueue_all_foldl [OF assms(1)] dequeue_all_buf)
qed

definition fresh_subscriber :: "nat \<Rightarrow> subscriber_session" where
  "fresh_subscriber k = \<lparr>sub_id = ''s'', sub_ctx = 0, sub_cancel = Some 0,
     queue = \<lparr>chan_buf = [], chan_cap = k, chan_closed = False\<rparr>\<rparr>"

theorem enqueue_dequeue_roundtrip_witness:
  "\<exists>s'. enqueue_all (map demo_packet [1, 2, 3]) (fresh_subscriber 2) = Some s'
     \<and> dequeue_all 5 s' = map demo_packet [2, 3]"
  using enqueue_dequeue_roundtrip [where s = "fresh_subscriber 2" and k = 5
      and pkts = "map demo_packet [1, 2, 3]"]
  by (simp add: fresh_subscriber_def sub_live_def sub_ok_def chan_ok_def lastn_def)

section \<open>The status page\<close>

lemma status_topics_names:
  assumes "mgr_ok m" and "set names \<subseteq> fmdom' (topics m)"
  shows "map st_name (status_topics names m) = names"
    and "length (filter st_has_publisher (status_topics names m))
      = length (filter (topic_published m) names)"
  using assms(2)
  by (induction names)
     (auto simp: fmlookup_dom'_iff topic_status_of_def topic_published_def mgr_okD(1) [OF assms(1)]
       split: option.splits)

lemma status_topics_member:
  "st \<in> set (status_topics names m) \<Longrightarrow>
   \<exists>n t. fmlookup (topics m) n = Some t \<and> st = topic_status_of t"
  by (induction names) (auto split: option.splits)

lemma active_publishers_filter:
  assumes "enumerates names (topics m)"
  shows "active_publishers m = int (length (filter (topic_published m) names))"
proof -
  have "{n. \<exists>t. fmlookup (topics m) n = Some t \<and> HasPublisher t} = set (filter (topic_published m) names)"
    using assms by (auto simp: enumerates_def topic_published_def fmlookup_dom'_iff split: option.splits)
  then show ?thesis
    using assms unfolding active_publishers_def fmsum_indicator
    by (simp add: enumerates_def distinct_card flip: set_filter)
qed

text \<open>The status page is accurate in every reachable state: it lists every topic of the
  manager once, under its own name, with its publisher and its number of subscribers,
  and the number of publishers it shows is the number of topics it shows with one.\<close>

theorem status_accurate:
  assumes "reach paired_publishers cfg s" and "enumerates names (topics (mgr s))"
  shows "map st_name (st_topics (Status names (mgr s))) = names
    \<and> (\<forall>st \<in> set (st_topics (Status names (mgr s))). \<exists>t.
        fmlookup (topics (mgr s)) (st_name st) = Some t
        \<and> st_has_publisher st = HasPublisher t \<and> st_publisher_id st = PublisherID t
        \<and> st_subscriber_count st = fmsize (subscribers t))
    \<and> st_publisher_count (Status names (mgr s))
        = int (length (filter st_has_publisher (st_topics (Status names (mgr s)))))"
proof -
  have ok: "mgr_ok (mgr s)" using reach_any [OF assms(1)] by (rule reach_mgr_ok)
  have names: "set names \<subseteq> fmdom' (topics (mgr s))" using assms(2) by (simp add: enumerates_def)
  have "publisherCount (mgr s) = active_publishers (mgr s)"
    using pub_count.reach_invariant [OF assms(1)] by (simp add: publishers_exact_def count_exact_def)
  then show ?thesis
    using status_topics_names [OF ok names] active_publishers_filter [OF assms(2)]
    by (auto simp: Status_def topic_status_of_def mgr_okD(1) [OF ok] dest!: status_topics_member)
qed

theorem status_accurate_witness:
  "\<exists>s. run_under paired_publishers (packet_in_flight @ [Publisher_registers ''u'' ''q''])
       (init_sys demo_config) = Some s
     \<and> map st_name (st_topics (Status [''u'', ''t''] (mgr s))) = [''u'', ''t'']
     \<and> st_publisher_count (Status [''u'', ''t''] (mgr s)) = 2"
proof -
  obtain s where s: "run_under paired_publishers (packet_in_flight @ [Publisher_registers ''u'' ''q''])
       (init_sys demo_config) = Some s"
    and names: "enumerates [''u'', ''t''] (topics (mgr s))"
    and two: "publisherCount (mgr s) = 2"
    by (auto simp: packet_in_flight_def run_eval paired_publishers_def)
  from status_accurate [OF run_from_start [OF s] names] s two show ?thesis
    by (simp add: Status_def)
qed

end
