(* ===== verification/Delivery.thy ===== *)
theory Delivery
  imports Execution "HOL-Library.Sublist"
begin

text \<open>
  The order in which packets travel through a topic.  A run of the system is logged:
  the packets that a call of \<open>PublishPacket\<close> put into the topic, in the order of the
  selects that did it, and the packets the dispatcher fanned out.  The dispatched
  packets, then the one the dispatcher holds, then the inbound queue are a subsequence
  of the accepted ones.
\<close>

definition in_flight :: "topic \<Rightarrow> inbound_packet list" where
  "in_flight t = (case dispatcher t of Busy pkt \<Rightarrow> [pkt] | _ \<Rightarrow> [])"

definition topic_pending :: "topic \<Rightarrow> inbound_packet list" where
  "topic_pending t = in_flight t @ chan_buf (inch t)"

definition pending :: "manager \<Rightarrow> string \<Rightarrow> inbound_packet list" where
  "pending m n = (case fmlookup (topics m) n of None \<Rightarrow> [] | Some t \<Rightarrow> topic_pending t)"

text \<open>What one step of the system takes into the topic, and what it fans out.\<close>

definition accepted :: "sys \<Rightarrow> event \<Rightarrow> sys \<Rightarrow> string \<Rightarrow> inbound_packet list" where
  "accepted s e s' n = (case e of
       Publish_selects i \<Rightarrow> (case (calls s i, calls s' i) of
           (Some (k, pkt, st), Some (_, _, st')) \<Rightarrow>
             if k = n \<and> st \<in> {Send1, Send2} \<and> st' = Returned True then [pkt] else []
         | _ \<Rightarrow> [])
     | _ \<Rightarrow> [])"

definition fanned_out :: "sys \<Rightarrow> event \<Rightarrow> string \<Rightarrow> inbound_packet list" where
  "fanned_out s e n = (case e of
       Dispatcher_fans_out k _ \<Rightarrow> (if k = n
         then (case fmlookup (topics (mgr s)) n of None \<Rightarrow> [] | Some t \<Rightarrow> in_flight t) else [])
     | _ \<Rightarrow> [])"

fun run_logged ::
    "string \<Rightarrow> event list \<Rightarrow> sys \<Rightarrow> (sys \<times> inbound_packet list \<times> inbound_packet list) option" where
  "run_logged n [] s = Some (s, [], [])"
| "run_logged n (e # es) s = (case exec_event e s of
       None \<Rightarrow> None
     | Some s' \<Rightarrow> map_option (\<lambda>(s'', acc, out). (s'', accepted s e s' n @ acc, fanned_out s e n @ out))
         (run_logged n es s'))"

section \<open>One step\<close>

lemma pending_set_topic [simp]:
  "pending (set_topic k t m) n = (if k = n then topic_pending t else pending m n)"
  by (simp add: pending_def)

lemma pending_count [simp]: "pending (m\<lparr>publisherCount := c\<rparr>) n = pending m n"
  by (simp add: pending_def)

lemma pending_topic: "fmlookup (topics m) n = Some t \<Longrightarrow> pending m n = topic_pending t"
  by (simp add: pending_def)

lemma topic_pending_frame [simp]:
  "topic_pending (SetPublisher p t) = topic_pending t"
  "topic_pending (fst (RemovePublisher t w)) = topic_pending t"
  "topic_pending (SetStream st t) = topic_pending t"
  "topic_pending (AddSubscriber sub t) = topic_pending t"
  "topic_pending (fst (RemoveSubscriber i t w)) = topic_pending t"
  "topic_pending (timer_fire t) = topic_pending t"
  by (simp_all add: topic_pending_def in_flight_def)

lemma topic_pending_closed [simp]: "topic_pending (closed_topic t) = topic_pending t"
  by (simp add: topic_pending_def in_flight_def closed_topic_def split: dispatcher.split)

lemma topic_pending_pendingCloses [simp]:
  "topic_pending (t\<lparr>pendingCloses := k\<rparr>) = topic_pending t"
  by (simp add: topic_pending_def in_flight_def)

lemma topic_pending_receive [simp]: "topic_pending (dispatcher_receive t) = topic_pending t"
  by (auto simp: topic_pending_def in_flight_def dispatcher_receive_def try_recv_def
      split: dispatcher.split list.split)

lemma topic_pending_NewTopic: "NewTopic n cfg = Some t \<Longrightarrow> topic_pending t = []"
  by (auto simp: NewTopic_def make_chan_def topic_pending_def in_flight_def split: if_splits)

lemma RegisterPublisher_pending:
  "RegisterPublisher k p m w = Some (e, m', w') \<Longrightarrow> pending m' n = pending m n"
  by (auto simp: RegisterPublisher_eq topic_or_new_def pending_topic topic_pending_NewTopic
      pending_def split: if_splits option.splits)

lemma UnregisterPublisher_pending: "pending (fst (UnregisterPublisher k m w)) n = pending m n"
  by (auto simp: UnregisterPublisher_def Let_def split_beta pending_topic split: option.split)

lemma RegisterSubscriber_pending:
  "RegisterSubscriber k sub m w = (e, m', w') \<Longrightarrow> pending m' n = pending m n"
  by (auto simp: RegisterSubscriber_def pending_topic split: if_splits option.splits)

lemma UnregisterSubscriber_pending: "pending (fst (UnregisterSubscriber k i m w)) n = pending m n"
  by (auto simp: UnregisterSubscriber_def Let_def split_beta pending_topic split: option.split)

lemma SetTopicStream_pending: "pending (SetTopicStream k st m) n = pending m n"
  by (auto simp: SetTopicStream_def pending_topic split: option.split)

lemma publish_select_pending:
  assumes "topic_ok t" and "publish_select st pkt t w = Some (st', t', w')"
  shows "subseq (topic_pending t')
    (topic_pending t @ (if st \<in> {Send1, Send2} \<and> st' = Returned True then [pkt] else []))"
proof (cases st)
  case Discard
  with assms have "topic_pending t' = in_flight t @ tl (chan_buf (inch t))"
    by (auto simp: publish_select_def topic_pending_def in_flight_def)
  moreover have "subseq (tl (chan_buf (inch t))) (chan_buf (inch t))"
    by (cases "chan_buf (inch t)") auto
  ultimately show ?thesis using Discard by (simp add: topic_pending_def subseq_append')
qed (use assms in \<open>auto simp: publish_select_def topic_pending_def in_flight_def try_send_iffs
    topic_ok_def split: send_outcome.splits dispatcher.splits\<close>)

lemma dispatcher_body_pending:
  assumes "topic_ok t" and "enumerates ids (subscribers t)"
    and "dispatcher_body ids t w = Some (t', w')"
  shows "in_flight t @ topic_pending t' = topic_pending t"
proof (cases "dispatcher t")
  case (Busy pkt)
  with assms show ?thesis by (auto simp: dispatcher_body_Busy topic_pending_def in_flight_def)
qed (use assms in \<open>simp_all add: dispatcher_body_def in_flight_def\<close>)

lemma run_pending_close_pending:
  assumes "topic_ok t" and "enumerates ids (subscribers t)"
    and "run_pending_close ids t w = Some (t', w')"
  shows "topic_pending t' = topic_pending t"
  using assms by (cases rule: run_pending_close_cases) auto

lemma Shutdown_pending:
  assumes "mgr_ok m" and "shutdown_order ord m" and "Shutdown ord m w = Some (m', w')"
  shows "pending m' n = pending m n"
proof -
  have "\<exists>m' w'. Shutdown ord m w = Some (m', w') \<and> mgr_ok m' \<and> pending m' n = pending m n"
  proof (rule Shutdown_invariant [where I = "\<lambda>m' w. mgr_ok m' \<and> pending m' n = pending m n"])
    show "mgr_ok (set_topic k (closed_topic t) m') \<and> pending (set_topic k (closed_topic t) m') n = pending m n"
      if "mgr_ok m' \<and> pending m' n = pending m n" "fmlookup (topics m') k = Some t" for m' k t
    proof
      show "mgr_ok (set_topic k (closed_topic t) m')"
        using that topic_fits_closed_topic topic_fits_lookup mgr_ok_set_topic by blast
      from that show "pending (set_topic k (closed_topic t) m') n = pending m n"
        by (auto simp: pending_topic)
    qed
  qed (use assms in \<open>auto simp: shutdown_order_def enumerates_def mgr_okD(2)\<close>)
  with assms(3) show ?thesis by auto
qed

text \<open>Only a select of a call of \<open>PublishPacket\<close> puts packets into a topic or displaces them.\<close>

definition publishing :: "sys \<Rightarrow> event \<Rightarrow> string \<Rightarrow> bool" where
  "publishing s e n \<longleftrightarrow> (case e of
       Publish_selects i \<Rightarrow> (case calls s i of Some (k, _, _) \<Rightarrow> k = n | None \<Rightarrow> False)
     | _ \<Rightarrow> False)"

lemma sys_step_pending_exact:
  assumes "sys_step s e s'" and "mgr_ok (mgr s)" and "\<not> publishing s e n"
  shows "fanned_out s e n @ pending (mgr s') n = pending (mgr s) n \<and> accepted s e s' n = []"
  using assms
proof (induction rule: sys_step.induct)
  case (publisher_registers pid s p w1 k e m' w')
  then show ?case by (simp add: fanned_out_def accepted_def RegisterPublisher_pending)
next
  case (publisher_leaves k s m' w')
  then show ?case
    using UnregisterPublisher_pending [of k "mgr s" "wld s" n] by (simp add: fanned_out_def accepted_def)
next
  case (subscriber_registers sid qsz s sub w1 k e m' w')
  then show ?case by (simp add: fanned_out_def accepted_def RegisterSubscriber_pending)
next
  case (subscriber_leaves k sid s m' w')
  then show ?case
    using UnregisterSubscriber_pending [of k sid "mgr s" "wld s" n]
    by (simp add: fanned_out_def accepted_def)
next
  case (close_runs s k t ids t' w')
  then have "topic_pending t' = topic_pending t" by (simp add: run_pending_close_pending mgr_okD(2))
  with close_runs(1) show ?case by (auto simp: fanned_out_def accepted_def pending_topic)
next
  case (dispatcher_fans_out s k t ids t' w')
  then have "in_flight t @ topic_pending t' = topic_pending t"
    by (simp add: dispatcher_body_pending mgr_okD(2))
  with dispatcher_fans_out(1) show ?case by (auto simp: fanned_out_def accepted_def pending_topic)
next
  case (publish_selects s i k pkt st t st' t' w')
  then show ?case by (auto simp: publishing_def fanned_out_def accepted_def)
next
  case (shutdown_runs ord s m' w')
  then show ?case by (simp add: fanned_out_def accepted_def Shutdown_pending)
qed (auto simp: fanned_out_def accepted_def pending_topic SetTopicStream_pending)

lemma sys_step_pending:
  assumes "sys_step s e s'" and "mgr_ok (mgr s)"
  shows "subseq (fanned_out s e n @ pending (mgr s') n) (pending (mgr s) n @ accepted s e s' n)"
proof (cases "publishing s e n")
  case False
  with sys_step_pending_exact [OF assms] show ?thesis by simp
next
  case True
  then obtain i where e: "e = Publish_selects i"
    by (auto simp: publishing_def split: event.splits)
  with assms(1) obtain k pkt st t st' t' w' where call: "calls s i = Some (k, pkt, st)"
    and t: "fmlookup (topics (mgr s)) k = Some t" "publish_select st pkt t (wld s) = Some (st', t', w')"
    and s': "s' = s\<lparr>mgr := set_topic k t' (mgr s), wld := w', calls := (calls s)(i \<mapsto> (k, pkt, st'))\<rparr>"
    by (auto simp: sys_step_simps)
  have "subseq (topic_pending t')
      (topic_pending t @ (if st \<in> {Send1, Send2} \<and> st' = Returned True then [pkt] else []))"
    using assms(2) t by (intro publish_select_pending mgr_okD(2))
  then show ?thesis using call t(1) True
    by (auto simp: e s' fanned_out_def accepted_def pending_topic publishing_def)
qed

section \<open>Runs\<close>

lemma run_logged_pending:
  assumes "run_logged n es s = Some (s', acc, out)" and "sys_ok s"
  shows "subseq (out @ pending (mgr s') n) (pending (mgr s) n @ acc)"
  using assms
proof (induction es arbitrary: s acc out)
  case Nil
  then show ?case by simp
next
  case (Cons e es)
  then obtain s1 acc1 out1 where e: "exec_event e s = Some s1"
    and rest: "run_logged n es s1 = Some (s', acc1, out1)"
    and logs: "acc = accepted s e s1 n @ acc1" "out = fanned_out s e n @ out1"
    by (auto split: option.splits)
  have step: "sys_step s e s1" using e by (rule exec_event_sound)
  have ok: "sys_ok s1" using step Cons.prems(2) by (rule sys_step_ok)
  have mok: "mgr_ok (mgr s)" using Cons.prems(2) by (simp add: sys_ok_def)
  have "subseq (fanned_out s e n @ (out1 @ pending (mgr s') n))
      (fanned_out s e n @ (pending (mgr s1) n @ acc1))"
    using Cons.IH [OF rest ok] by (simp add: subseq_append')
  also have "subseq \<dots> ((pending (mgr s) n @ accepted s e s1 n) @ acc1)"
    using sys_step_pending [OF step mok, of n] by (metis append_assoc list_emb_append_mono subseq_order.refl)
  finally (subseq_order.trans) show ?case by (simp add: logs)
qed

text \<open>C13: Packets are never reordered, duplicated or invented: in every run, however the
  calls of \<open>PublishPacket\<close>, the dispatcher, closes and registrations interleave, the
  packets fanned out to the subscribers of a topic, followed by those still waiting in
  it, are a subsequence of the packets accepted for it, in the order of acceptance.\<close>

theorem delivery_in_order:
  assumes "run_logged n es (init_sys cfg) = Some (s, acc, out)"
  shows "subseq (out @ pending (mgr s) n) acc"
  using run_logged_pending [OF assms sys_ok_start [of cfg init_world, folded init_sys_def]]
  by (simp add: pending_def init_sys_def start_sys_def NewManager_def)

text \<open>Two publishing calls that overlap on a full queue, with one turn of the dispatcher.\<close>

definition overlapping_calls :: "event list" where
  "overlapping_calls = [Publisher_registers ''t'' ''p'', Subscriber_registers ''t'' ''s'' 2,
     Publish_called 0 ''t'' (demo_packet 1), Publish_selects 0, Publish_called 0 ''t'' (demo_packet 2),
     Publish_selects 0, Publish_called 0 ''t'' (demo_packet 3), Publish_called 1 ''t'' (demo_packet 4),
     Publish_selects 0, Publish_selects 1, Publish_selects 0, Publish_selects 1, Publish_selects 1,
     Publish_selects 0, Dispatcher_receives ''t'', Dispatcher_fans_out ''t'' [''s'']]"

theorem delivery_in_order_witness:
  "\<exists>s acc out. run_logged ''t'' overlapping_calls (init_sys demo_config) = Some (s, acc, out)
     \<and> out = [demo_packet 4] \<and> acc = map demo_packet [1, 2, 4, 3]
     \<and> subseq (out @ pending (mgr s) ''t'') acc"
proof -
  obtain s acc out where s: "run_logged ''t'' overlapping_calls (init_sys demo_config) = Some (s, acc, out)"
    and logs: "out = [demo_packet 4]" "acc = map demo_packet [1, 2, 4, 3]"
    by (simp add: overlapping_calls_def run_eval accepted_def fanned_out_def in_flight_def)
  from delivery_in_order [OF s] s logs show ?thesis by blast
qed

end
