(* ===== verification/Progress.thy ===== *)
theory Progress
  imports Delivery
begin

text \<open>
  The dispatcher makes progress.  An endless execution of the system is a sequence of
  states and events; it is fair to a topic's dispatcher when the goroutine's two steps,
  the receive and the fan-out, are scheduled again and again.  Whatever else runs in
  between, the packets that wait in the topic then leave it.
\<close>

section \<open>Progress by a measure\<close>

text \<open>
  \<open>Q j m\<close>: the goal \<open>P\<close> is not reached at time \<open>j\<close> and \<open>m\<close> is left to do.  No step
  increases \<open>m\<close>, and the steps that are helpful for \<open>m\<close>, which come again and again,
  decrease it.
\<close>

lemma progress_by_measure:
  fixes Q :: "nat \<Rightarrow> nat \<Rightarrow> bool"
  assumes step: "\<And>j m. i \<le> j \<Longrightarrow> Q j m \<Longrightarrow>
      P j \<or> (\<exists>m'. Q (Suc j) m' \<and> (m' < m \<or> m' = m \<and> \<not> helpful j m))"
    and fair: "\<And>j m. i \<le> j \<Longrightarrow> \<exists>k\<ge>j. helpful k m"
    and start: "Q i m"
  shows "\<exists>j\<ge>i. P j"
proof -
  have "i \<le> j \<Longrightarrow> Q j m \<Longrightarrow> \<exists>l\<ge>j. P l" for j m
  proof (induction m arbitrary: j rule: less_induct)
    case (less m)
    have run: "i \<le> j \<Longrightarrow> Q j m \<Longrightarrow> helpful (j + d) m \<Longrightarrow> \<exists>l\<ge>j. P l" for d j
    proof (induction d arbitrary: j)
      case 0
      then have "P j \<or> (\<exists>m'. Q (Suc j) m' \<and> m' < m)" using step [of j m] by auto
      then show ?case
      proof
        assume "\<exists>m'. Q (Suc j) m' \<and> m' < m"
        with less(1) [of _ "Suc j"] 0(1) obtain l where "Suc j \<le> l" "P l" by auto
        then show ?thesis by (intro exI [of _ l]) simp
      qed auto
    next
      case (Suc d)
      then consider "P j" | m' where "Q (Suc j) m'" "m' < m" | "Q (Suc j) m" using step [of j m] by auto
      then show ?case
      proof cases
        case 2
        with less(1) [of m' "Suc j"] Suc.prems(1) obtain l where "Suc j \<le> l" "P l" by auto
        then show ?thesis by (intro exI [of _ l]) simp
      next
        case 3
        with Suc.IH [of "Suc j"] Suc.prems obtain l where "Suc j \<le> l" "P l" by auto
        then show ?thesis by (intro exI [of _ l]) simp
      qed auto
    qed
    from fair [OF less(2)] obtain k where "j \<le> k" "helpful k m" by blast
    with run [OF less(2,3), of "k - j"] show ?case by simp
  qed
  with start show ?thesis by blast
qed

section \<open>Executions\<close>

definition execution :: "(nat \<Rightarrow> sys) \<Rightarrow> (nat \<Rightarrow> event) \<Rightarrow> bool" where
  "execution \<sigma> \<epsilon> \<longleftrightarrow> (\<forall>i. sys_step (\<sigma> i) (\<epsilon> i) (\<sigma> (Suc i)))"

definition dispatcher_fair :: "string \<Rightarrow> (nat \<Rightarrow> event) \<Rightarrow> bool" where
  "dispatcher_fair n \<epsilon> \<longleftrightarrow>
     (\<forall>i. \<exists>j\<ge>i. \<epsilon> j = Dispatcher_receives n) \<and> (\<forall>i. \<exists>j\<ge>i. \<exists>ids. \<epsilon> j = Dispatcher_fans_out n ids)"

text \<open>What a topic accepted, and what its dispatcher fanned out, from time \<open>i\<close> to time \<open>j\<close>.\<close>

definition accepted_between ::
    "(nat \<Rightarrow> sys) \<Rightarrow> (nat \<Rightarrow> event) \<Rightarrow> string \<Rightarrow> nat \<Rightarrow> nat \<Rightarrow> inbound_packet list" where
  "accepted_between \<sigma> \<epsilon> n i j = concat (map (\<lambda>k. accepted (\<sigma> k) (\<epsilon> k) (\<sigma> (Suc k)) n) [i..<j])"

definition fanned_between ::
    "(nat \<Rightarrow> sys) \<Rightarrow> (nat \<Rightarrow> event) \<Rightarrow> string \<Rightarrow> nat \<Rightarrow> nat \<Rightarrow> inbound_packet list" where
  "fanned_between \<sigma> \<epsilon> n i j = concat (map (\<lambda>k. fanned_out (\<sigma> k) (\<epsilon> k) n) [i..<j])"

lemma between_simps [simp]:
  "accepted_between \<sigma> \<epsilon> n i i = []"
  "fanned_between \<sigma> \<epsilon> n i i = []"
  "i \<le> j \<Longrightarrow> accepted_between \<sigma> \<epsilon> n i (Suc j)
     = accepted_between \<sigma> \<epsilon> n i j @ accepted (\<sigma> j) (\<epsilon> j) (\<sigma> (Suc j)) n"
  "i \<le> j \<Longrightarrow> fanned_between \<sigma> \<epsilon> n i (Suc j) = fanned_between \<sigma> \<epsilon> n i j @ fanned_out (\<sigma> j) (\<epsilon> j) n"
  by (simp_all add: accepted_between_def fanned_between_def)

lemma execution_ok:
  assumes "execution \<sigma> \<epsilon>" and "sys_ok (\<sigma> 0)"
  shows "sys_ok (\<sigma> i)"
proof (induction i)
  case (Suc i)
  from assms(1) have "sys_step (\<sigma> i) (\<epsilon> i) (\<sigma> (Suc i))" by (simp add: execution_def)
  then show ?case using Suc by (rule sys_step_ok)
qed (use assms in simp)

lemma execution_mgr_ok: "execution \<sigma> \<epsilon> \<Longrightarrow> sys_ok (\<sigma> 0) \<Longrightarrow> mgr_ok (mgr (\<sigma> i))"
  using execution_ok [of \<sigma> \<epsilon> i] by (simp add: sys_ok_def)

section \<open>The work of the dispatcher\<close>

definition mode :: "sys \<Rightarrow> string \<Rightarrow> dispatcher option" where
  "mode s n = map_option dispatcher (fmlookup (topics (mgr s)) n)"

text \<open>A busy dispatcher stays busy until it fans out.\<close>

lemma busy_until_fan_out:
  assumes "sys_step s e s'" and "mgr_ok (mgr s)" and "mode s n = Some (Busy pkt)"
    and "\<And>ids. e \<noteq> Dispatcher_fans_out n ids"
  shows "mode s' n = Some (Busy pkt)"
  using assms
proof (induction rule: sys_step.induct)
  case (close_runs s k t ids t' w')
  then have "topic_ok t" by (simp add: mgr_okD(2))
  from this close_runs(2,3) show ?case
    by (cases rule: run_pending_close_cases) (use close_runs in \<open>auto simp: mode_def closed_topic_def\<close>)
next
  case (publish_selects s i k pkt st t st' t' w')
  then show ?case
    by (auto simp: mode_def publish_select_def try_send_iffs
        split: publish_state.splits send_outcome.splits)
next
  case (shutdown_runs ord s m' w')
  let ?I = "\<lambda>m w. mgr_ok m \<and> map_option dispatcher (fmlookup (topics m) n) = Some (Busy pkt)"
  have "\<exists>m' w'. Shutdown ord (mgr s) (wld s) = Some (m', w') \<and> ?I m' w'"
  proof (rule Shutdown_invariant [where I = ?I])
    show "?I (set_topic k (closed_topic t) m) (closed_world t w)"
      if "?I m w" "fmlookup (topics m) k = Some t" for m w k t
      using that topic_fits_closed_topic [OF topic_fits_lookup [of m k t]]
      by (auto simp: mgr_ok_set_topic closed_topic_def)
  qed (use shutdown_runs in \<open>auto simp: shutdown_order_def enumerates_def mgr_okD(2) mode_def\<close>)
  with shutdown_runs(2) show ?case by (auto simp: mode_def)
qed (auto simp: mode_def RegisterPublisher_eq topic_or_new_def UnregisterPublisher_def RegisterSubscriber_def
    UnregisterSubscriber_def SetTopicStream_def dispatcher_receive_def Let_def split_beta
    split: if_splits option.splits)

lemma receive_takes:
  assumes "sys_step s (Dispatcher_receives n) s'" and "mode s n = Some Looping" and "pending (mgr s) n \<noteq> []"
  shows "\<exists>pkt. mode s' n = Some (Busy pkt)"
proof -
  from assms obtain t where t: "fmlookup (topics (mgr s)) n = Some t" "dispatcher t = Looping"
    and s': "s' = s\<lparr>mgr := set_topic n (dispatcher_receive t) (mgr s)\<rparr>"
    by (auto simp: mode_def sys_step_simps)
  with assms(3) obtain x xs where "chan_buf (inch t) = x # xs"
    by (auto simp: pending_def topic_pending_def in_flight_def neq_Nil_conv)
  with t s' show ?thesis by (simp add: mode_def dispatcher_receive_def try_recv_def)
qed

lemma pending_mode:
  assumes "mgr_ok (mgr s)" and "pending (mgr s) n \<noteq> []"
  shows "mode s n = Some Looping \<or> (\<exists>pkt. mode s n = Some (Busy pkt))"
proof -
  from assms(2) obtain t where t: "fmlookup (topics (mgr s)) n = Some t"
    by (auto simp: pending_def split: option.splits)
  with assms mgr_okD(2) [OF assms(1) t] show ?thesis
    by (cases "dispatcher t") (auto simp: mode_def pending_def topic_pending_def in_flight_def topic_ok_def)
qed

lemma fan_out_delivers:
  assumes "mode s n = Some (Busy pkt)"
  shows "fanned_out s (Dispatcher_fans_out n ids) n = [pkt]"
  using assms by (auto simp: mode_def fanned_out_def in_flight_def split: option.splits)

text \<open>
  What is left to do for the old packets: two steps for each, one of them done when the
  dispatcher is busy.
\<close>

definition work :: "sys \<Rightarrow> string \<Rightarrow> inbound_packet list \<Rightarrow> nat" where
  "work s n old = 2 * length old + (if mode s n = Some Looping then 1 else 0)"

definition helps :: "string \<Rightarrow> event \<Rightarrow> nat \<Rightarrow> bool" where
  "helps n e m \<longleftrightarrow> (if odd m then e = Dispatcher_receives n else \<exists>ids. e = Dispatcher_fans_out n ids)"

lemma work_step:
  assumes step: "sys_step s e s'" and ok: "mgr_ok (mgr s)" and ok': "mgr_ok (mgr s')"
    and split: "pending (mgr s) n = old @ new" and old: "old \<noteq> []"
  shows "\<exists>old' new'. pending (mgr s') n = old' @ new' \<and> subseq new' (new @ accepted s e s' n)
    \<and> (work s' n old' < work s n old \<or> work s' n old' = work s n old \<and> \<not> helps n e (work s n old))"
proof -
  have sub: "subseq (fanned_out s e n @ pending (mgr s') n) (old @ (new @ accepted s e s' n))"
    using sys_step_pending [OF step ok, of n] split by simp
  have "pending (mgr s) n \<noteq> []" using split old by simp
  then consider (looping) "mode s n = Some Looping" | (busy) pkt where "mode s n = Some (Busy pkt)"
    using pending_mode [OF ok] by blast
  then show ?thesis
  proof cases
    case looping
    then have none: "fanned_out s e n = []"
      by (auto simp: fanned_out_def mode_def in_flight_def split: event.split option.split)
    with sub obtain old' new' where o: "pending (mgr s') n = old' @ new'" "subseq old' old"
      "subseq new' (new @ accepted s e s' n)" by (auto simp: subseq_append_iff)
    have len: "length old' \<le> length old" using o(2) by (rule list_emb_length)
    have "mode s' n \<noteq> Some Looping" if "helps n e (work s n old)"
      using receive_takes [of s n s'] step looping split old that by (auto simp: helps_def work_def)
    with o len looping show ?thesis
      by (intro exI [of _ old'] exI [of _ new']) (auto simp: work_def)
  next
    case busy
    show ?thesis
    proof (cases "\<exists>ids. e = Dispatcher_fans_out n ids")
      case True
      then have "fanned_out s e n = [pkt]" using fan_out_delivers [OF busy] by auto
      with sub obtain us vs where uv: "pkt # pending (mgr s') n = us @ vs" "subseq us old"
        "subseq vs (new @ accepted s e s' n)" by (auto simp: subseq_append_iff)
      show ?thesis
      proof (cases us)
        case Nil
        with uv have "subseq (pending (mgr s') n) (new @ accepted s e s' n)"
          by (metis append_Nil subseq_Cons')
        then show ?thesis using old
          by (intro exI [of _ "[]"] exI [of _ "pending (mgr s') n"]) (auto simp: work_def neq_Nil_conv)
      next
        case (Cons x us')
        with uv list_emb_length [OF uv(2)] show ?thesis
          using busy by (intro exI [of _ us'] exI [of _ vs]) (auto simp: work_def)
      qed
    next
      case False
      then have stays: "mode s' n = Some (Busy pkt)" using busy_until_fan_out [OF step ok busy] by auto
      from False have "fanned_out s e n = []" by (auto simp: fanned_out_def split: event.split)
      with sub obtain old' new' where o: "pending (mgr s') n = old' @ new'" "subseq old' old"
        "subseq new' (new @ accepted s e s' n)" by (auto simp: subseq_append_iff)
      with list_emb_length [OF o(2)] stays busy False show ?thesis
        by (intro exI [of _ old'] exI [of _ new']) (auto simp: work_def helps_def)
    qed
  qed
qed


section \<open>Liveness\<close>

lemma dispatcher_makes_progress:
  assumes run: "execution \<sigma> \<epsilon>" and ok: "sys_ok (\<sigma> 0)" and fair: "dispatcher_fair n \<epsilon>"
  shows "\<exists>j\<ge>i. subseq (pending (mgr (\<sigma> j)) n) (accepted_between \<sigma> \<epsilon> n i j)"
proof -
  define Q where "Q = (\<lambda>j m. \<exists>old new. pending (mgr (\<sigma> j)) n = old @ new
      \<and> subseq new (accepted_between \<sigma> \<epsilon> n i j) \<and> m = work (\<sigma> j) n old)"
  let ?P = "\<lambda>j. subseq (pending (mgr (\<sigma> j)) n) (accepted_between \<sigma> \<epsilon> n i j)"
  show ?thesis
  proof (rule progress_by_measure [where Q = Q and helpful = "\<lambda>j. helps n (\<epsilon> j)"])
    fix j m
    assume j: "i \<le> j" and "Q j m"
    then obtain old new where q: "pending (mgr (\<sigma> j)) n = old @ new"
      "subseq new (accepted_between \<sigma> \<epsilon> n i j)" "m = work (\<sigma> j) n old"
      by (auto simp: Q_def)
    show "?P j \<or> (\<exists>m'. Q (Suc j) m' \<and> (m' < m \<or> m' = m \<and> \<not> helps n (\<epsilon> j) m))"
    proof (cases "old = []")
      case False
      have "sys_step (\<sigma> j) (\<epsilon> j) (\<sigma> (Suc j))" using run by (simp add: execution_def)
      from work_step [OF this execution_mgr_ok [OF run ok] execution_mgr_ok [OF run ok] q(1) False]
      obtain old' new' where s: "pending (mgr (\<sigma> (Suc j))) n = old' @ new'"
        "subseq new' (new @ accepted (\<sigma> j) (\<epsilon> j) (\<sigma> (Suc j)) n)"
        "work (\<sigma> (Suc j)) n old' < m \<or> work (\<sigma> (Suc j)) n old' = m \<and> \<not> helps n (\<epsilon> j) m"
        unfolding q(3) by blast
      from s(2) q(2) have "subseq new' (accepted_between \<sigma> \<epsilon> n i (Suc j))"
        using j by (auto intro: subseq_order.trans)
      with s show ?thesis unfolding Q_def by blast
    qed (use q in simp)
  next
    show "\<exists>k\<ge>j. helps n (\<epsilon> k) m" for j m
      using fair by (cases "odd m") (simp_all add: dispatcher_fair_def helps_def)
    show "Q i (work (\<sigma> i) n (pending (mgr (\<sigma> i)) n))" by (auto simp: Q_def)
  qed
qed

lemma fanned_exactly:
  assumes run: "execution \<sigma> \<epsilon>" and ok: "sys_ok (\<sigma> 0)" and "i \<le> j"
    and quiet: "\<And>k. i \<le> k \<Longrightarrow> \<not> publishing (\<sigma> k) (\<epsilon> k) n"
  shows "fanned_between \<sigma> \<epsilon> n i j @ pending (mgr (\<sigma> j)) n = pending (mgr (\<sigma> i)) n
    \<and> accepted_between \<sigma> \<epsilon> n i j = []"
  using assms(3)
proof (induction j rule: dec_induct)
  case (step j)
  have "sys_step (\<sigma> j) (\<epsilon> j) (\<sigma> (Suc j))" using run by (simp add: execution_def)
  from sys_step_pending_exact [OF this execution_mgr_ok [OF run ok] quiet] step show ?case by simp
qed simp

text \<open>C14: Under a fair scheduler the dispatcher never starves a topic: whatever the publishers,
  readers, timers and closes do in between, the packets that wait in a topic at any time
  leave it, fanned out or displaced by newer ones, and when nobody publishes to the topic
  any more, all of them are fanned out, in order, and the topic is empty from then on.\<close>

theorem dispatcher_is_live:
  assumes "execution \<sigma> \<epsilon>" and "reach any_event cfg (\<sigma> 0)" and "dispatcher_fair n \<epsilon>"
  shows "(\<exists>j\<ge>i. subseq (pending (mgr (\<sigma> j)) n) (accepted_between \<sigma> \<epsilon> n i j))
    \<and> ((\<forall>k\<ge>i. \<not> publishing (\<sigma> k) (\<epsilon> k) n) \<longrightarrow>
        (\<exists>j\<ge>i. fanned_between \<sigma> \<epsilon> n i j = pending (mgr (\<sigma> i)) n
          \<and> (\<forall>k\<ge>j. pending (mgr (\<sigma> k)) n = [])))"
proof -
  have ok: "sys_ok (\<sigma> 0)" using reach_ok [OF assms(2)] by simp
  obtain j where j: "i \<le> j" "subseq (pending (mgr (\<sigma> j)) n) (accepted_between \<sigma> \<epsilon> n i j)"
    using dispatcher_makes_progress [OF assms(1) ok assms(3)] by blast
  moreover have "fanned_between \<sigma> \<epsilon> n i j = pending (mgr (\<sigma> i)) n
      \<and> (\<forall>k\<ge>j. pending (mgr (\<sigma> k)) n = [])" if quiet: "\<forall>k\<ge>i. \<not> publishing (\<sigma> k) (\<epsilon> k) n"
  proof -
    have all: "fanned_between \<sigma> \<epsilon> n i j @ pending (mgr (\<sigma> j)) n = pending (mgr (\<sigma> i)) n"
      "accepted_between \<sigma> \<epsilon> n i j = []"
      using fanned_exactly [OF assms(1) ok j(1), of n] quiet by simp_all
    with j(2) have "pending (mgr (\<sigma> j)) n = []" by simp
    moreover have "pending (mgr (\<sigma> k)) n = []" if "j \<le> k" for k
      using fanned_exactly [OF assms(1) ok that, of n] quiet j(1) calculation by simp
    ultimately show ?thesis using all by simp
  qed
  ultimately show ?thesis by blast
qed

text \<open>From every state there is a fair execution: the dispatcher alone, the order of its loop
  fixed.\<close>

definition dispatcher_turns :: "string \<Rightarrow> string list \<Rightarrow> nat \<Rightarrow> event" where
  "dispatcher_turns n ids i = (if even i then Dispatcher_receives n else Dispatcher_fans_out n ids)"

primrec dispatcher_run :: "string \<Rightarrow> string list \<Rightarrow> sys \<Rightarrow> nat \<Rightarrow> sys" where
  "dispatcher_run n ids s 0 = s"
| "dispatcher_run n ids s (Suc i) =
     the (exec_event (dispatcher_turns n ids i) (dispatcher_run n ids s i))"

lemma dispatcher_turn:
  assumes "sys_ok s" and "fmlookup (topics (mgr s)) n = Some t" and "enumerates ids (subscribers t)"
  shows "\<exists>s' t'. exec_event (dispatcher_turns n ids i) s = Some s' \<and> sys_ok s'
    \<and> fmlookup (topics (mgr s')) n = Some t' \<and> enumerates ids (subscribers t')"
proof -
  have ok: "topic_ok t" using assms(1,2) by (auto simp: sys_ok_def dest: mgr_okD(2))
  have "\<exists>s' t'. exec_event (dispatcher_turns n ids i) s = Some s'
      \<and> fmlookup (topics (mgr s')) n = Some t' \<and> enumerates ids (subscribers t')"
  proof (cases "even i")
    case False
    obtain t' w' where body: "dispatcher_body ids t (wld s) = Some (t', w')"
      using dispatcher_body_ok [OF ok assms(3)] by blast
    from ok assms(3) this have "enumerates ids (subscribers t')"
      by (cases rule: dispatcher_body_cases) (use assms(3) in \<open>auto simp: enumerates_def\<close>)
    with False body assms(2,3) show ?thesis by (simp add: dispatcher_turns_def)
  qed (use assms in \<open>simp add: dispatcher_turns_def\<close>)
  then show ?thesis using exec_event_sound sys_step_ok [OF _ assms(1)] by blast
qed

lemma dispatcher_run_execution:
  assumes "sys_ok s" and "fmlookup (topics (mgr s)) n = Some t" and "enumerates ids (subscribers t)"
  shows "execution (dispatcher_run n ids s) (dispatcher_turns n ids)"
    and "dispatcher_fair n (dispatcher_turns n ids)"
proof -
  have inv: "sys_ok (dispatcher_run n ids s i) \<and> (\<exists>t. fmlookup (topics (mgr (dispatcher_run n ids s i))) n = Some t
      \<and> enumerates ids (subscribers t))" for i
  proof (induction i)
    case (Suc i)
    with dispatcher_turn [of "dispatcher_run n ids s i" n _ ids i] show ?case by fastforce
  qed (use assms in simp)
  show "execution (dispatcher_run n ids s) (dispatcher_turns n ids)"
    unfolding execution_def
  proof
    fix i
    from inv [of i] dispatcher_turn [of "dispatcher_run n ids s i" n _ ids i]
    show "sys_step (dispatcher_run n ids s i) (dispatcher_turns n ids i) (dispatcher_run n ids s (Suc i))"
      by (auto intro!: exec_event_sound)
  qed
  have "\<exists>j\<ge>i. even j" "\<exists>j\<ge>i. odd j" for i :: nat
    by (intro exI [of _ "2 * i"], simp) (intro exI [of _ "Suc (2 * i)"], simp)
  then show "dispatcher_fair n (dispatcher_turns n ids)"
    by (fastforce simp: dispatcher_fair_def dispatcher_turns_def)
qed

definition two_waiting :: "event list" where
  "two_waiting = [Publisher_registers ''t'' ''p'', Subscriber_registers ''t'' ''s'' 2,
     Publish_called 0 ''t'' (demo_packet 1), Publish_selects 0,
     Publish_called 0 ''t'' (demo_packet 2), Publish_selects 0]"

theorem dispatcher_is_live_witness:
  "\<exists>s j. run_under any_event two_waiting (init_sys demo_config) = Some s
     \<and> pending (mgr s) ''t'' = map demo_packet [1, 2]
     \<and> fanned_between (dispatcher_run ''t'' [''s''] s) (dispatcher_turns ''t'' [''s'']) ''t'' 0 j
         = map demo_packet [1, 2]
     \<and> pending (mgr (dispatcher_run ''t'' [''s''] s j)) ''t'' = []"
proof -
  obtain s t where s: "run_under any_event two_waiting (init_sys demo_config) = Some s"
    and t: "fmlookup (topics (mgr s)) ''t'' = Some t" "enumerates [''s''] (subscribers t)"
    and two: "pending (mgr s) ''t'' = map demo_packet [1, 2]"
    by (simp add: two_waiting_def run_eval pending_def topic_pending_def in_flight_def)
  have reach: "reach any_event demo_config s" using run_from_start [OF s] .
  then have ok: "sys_ok s" by (simp add: reach_ok)
  have "reach any_event demo_config (dispatcher_run ''t'' [''s''] s 0)" using reach by simp
  note live = dispatcher_is_live [OF dispatcher_run_execution(1) [OF ok t] this
      dispatcher_run_execution(2) [OF ok t], of 0]
  have "\<not> publishing u (dispatcher_turns ''t'' [''s''] k) ''t''" for u k
    by (simp add: publishing_def dispatcher_turns_def)
  with live obtain j where "fanned_between (dispatcher_run ''t'' [''s''] s) (dispatcher_turns ''t'' [''s'']) ''t'' 0 j
      = pending (mgr (dispatcher_run ''t'' [''s''] s 0)) ''t''"
    "\<forall>k\<ge>j. pending (mgr (dispatcher_run ''t'' [''s''] s k)) ''t'' = []" by blast
  with s two show ?thesis by auto
qed

end
