(* ===== verification/GoStrings.thy ===== *)
theory GoStrings
  imports Prelude
begin

text \<open>
  The part of Go's \<open>strings\<close>, \<open>strconv\<close> and \<open>fmt\<close> packages the program uses.  A Go
  string is a sequence of bytes, so a \<open>string\<close> here is a list of bytes; a character
  outside ASCII is its UTF-8 encoding.
\<close>

section \<open>Prefixes\<close>

definition HasPrefix :: "string \<Rightarrow> string \<Rightarrow> bool" where
  "HasPrefix s p \<longleftrightarrow> take (length p) s = p"

definition TrimPrefix :: "string \<Rightarrow> string \<Rightarrow> string" where
  "TrimPrefix s p = (if HasPrefix s p then drop (length p) s else s)"

definition HasSuffix :: "string \<Rightarrow> string \<Rightarrow> bool" where
  "HasSuffix s p \<longleftrightarrow> HasPrefix (rev s) (rev p)"

lemma HasPrefix_append [simp]: "HasPrefix (p @ s) p"
  by (simp add: HasPrefix_def)

lemma HasPrefix_iff: "HasPrefix s p \<longleftrightarrow> (\<exists>r. s = p @ r)"
  by (metis HasPrefix_append HasPrefix_def append_take_drop_id)

lemma TrimPrefix_append [simp]: "TrimPrefix (p @ s) p = s"
  by (simp add: TrimPrefix_def)

section \<open>Splitting\<close>

text \<open>\<open>strings.Split\<close> and \<open>strings.SplitN\<close> with a separator of one byte.\<close>

fun Split :: "char \<Rightarrow> string \<Rightarrow> string list" where
  "Split c [] = [[]]"
| "Split c (x # xs) = (if x = c then [] # Split c xs
     else (case Split c xs of [] \<Rightarrow> [[x]] | y # ys \<Rightarrow> (x # y) # ys))"

fun SplitN :: "char \<Rightarrow> nat \<Rightarrow> string \<Rightarrow> string list" where
  "SplitN c 0 s = []"
| "SplitN c (Suc 0) s = [s]"
| "SplitN c (Suc (Suc n)) s = (if c \<in> set s
     then takeWhile (\<lambda>x. x \<noteq> c) s # SplitN c (Suc n) (tl (dropWhile (\<lambda>x. x \<noteq> c) s))
     else [s])"

fun Join :: "char \<Rightarrow> string list \<Rightarrow> string" where
  "Join c [] = []"
| "Join c [s] = s"
| "Join c (s # t # ss) = s @ c # Join c (t # ss)"

lemma Split_not_Nil [simp]: "Split c s \<noteq> []"
  by (cases s) (auto split: list.split)

lemma Split_no_separator: "c \<notin> set s \<Longrightarrow> Split c s = [s]"
  by (induction s) auto

lemma Split_append: "c \<notin> set s \<Longrightarrow> Split c (s @ c # t) = s # Split c t"
  by (induction s) auto

lemma Split_parts: "p \<in> set (Split c s) \<Longrightarrow> c \<notin> set p"
proof (induction s arbitrary: p)
  case (Cons x s)
  then show ?case by (cases "Split c s") (auto split: if_splits)
qed simp

lemma Join_Split: "Join c (Split c s) = s"
proof (induction s)
  case (Cons x s)
  then show ?case
  proof (cases "Split c s")
    case (Cons y ys)
    with Cons.IH show ?thesis by (cases ys) auto
  qed simp
qed simp

lemma Split_Join:
  "ss \<noteq> [] \<Longrightarrow> \<forall>s \<in> set ss. c \<notin> set s \<Longrightarrow> Split c (Join c ss) = ss"
  by (induction c ss rule: Join.induct) (auto simp: Split_no_separator Split_append)

section \<open>White space\<close>

text \<open>
  The encodings of the runes \<open>unicode.IsSpace\<close> accepts: six of ASCII, then U+0085,
  U+00A0, U+1680, U+2000 to U+200A, U+2028, U+2029, U+202F, U+205F and U+3000.
  No encoding is a prefix of another one, and none can start inside another rune.
\<close>

definition space_runes :: "string list" where
  "space_runes = map (map char_of)
    ([[9], [10], [11], [12], [13], [32], [0xC2, 0x85], [0xC2, 0xA0], [0xE1, 0x9A, 0x80]]
     @ map (\<lambda>k. [0xE2, 0x80, k])
        [0x80, 0x81, 0x82, 0x83, 0x84, 0x85, 0x86, 0x87, 0x88, 0x89, 0x8A, 0xA8, 0xA9, 0xAF]
     @ [[0xE2, 0x81, 0x9F], [0xE3, 0x80, 0x80 :: nat]])"

definition drop_rune :: "string list \<Rightarrow> string \<Rightarrow> string option" where
  "drop_rune runes s = map_option (\<lambda>r. drop (length r) s) (find (HasPrefix s) runes)"

lemma drop_rune_shorter:
  assumes "drop_rune runes s = Some t" and "[] \<notin> set runes"
  shows "length t < length s"
proof -
  obtain r where r: "find (HasPrefix s) runes = Some r" and t: "t = drop (length r) s"
    using assms(1) by (auto simp: drop_rune_def)
  then have "HasPrefix s r" and "r \<in> set runes" by (auto simp: find_Some_iff)
  with assms(2) have "r \<noteq> []" by auto
  with t \<open>HasPrefix s r\<close> show ?thesis by (auto simp: HasPrefix_iff)
qed

text \<open>Runes dropped from the front as long as there are any.\<close>

fun trim_runes :: "nat \<Rightarrow> string list \<Rightarrow> string \<Rightarrow> string" where
  "trim_runes 0 runes s = s"
| "trim_runes (Suc n) runes s = (case drop_rune runes s of
       None \<Rightarrow> s | Some t \<Rightarrow> trim_runes n runes t)"

definition TrimLeft :: "string \<Rightarrow> string" where
  "TrimLeft s = trim_runes (length s) space_runes s"

definition TrimRight :: "string \<Rightarrow> string" where
  "TrimRight s = rev (trim_runes (length s) (map rev space_runes) (rev s))"

definition TrimSpace :: "string \<Rightarrow> string" where
  "TrimSpace s = TrimRight (TrimLeft s)"

text \<open>The length bounds the number of runes, so nothing is left to trim.\<close>

lemma trim_runes_done:
  assumes "[] \<notin> set runes"
  shows "length s \<le> n \<Longrightarrow> drop_rune runes (trim_runes n runes s) = None"
proof (induction n arbitrary: s)
  case 0
  with assms drop_rune_shorter [of runes s] show ?case by (cases "drop_rune runes s") auto
next
  case (Suc n)
  show ?case
  proof (cases "drop_rune runes s")
    case (Some t)
    then have "length t < length s" using assms by (rule drop_rune_shorter)
    with Suc Some show ?thesis by simp
  qed simp
qed

lemma trim_runes_None: "drop_rune runes s = None \<Longrightarrow> trim_runes n runes s = s"
  by (cases n) auto

lemma space_runes_proper: "[] \<notin> set space_runes" "[] \<notin> set (map rev space_runes)"
  by (auto simp: space_runes_def)

text \<open>A string that neither starts nor ends with white space is left alone.\<close>

definition trimmed :: "string \<Rightarrow> bool" where
  "trimmed s \<longleftrightarrow> drop_rune space_runes s = None \<and> drop_rune (map rev space_runes) (rev s) = None"

lemma TrimSpace_trimmed: "trimmed s \<Longrightarrow> TrimSpace s = s"
  by (simp add: trimmed_def TrimSpace_def TrimLeft_def TrimRight_def trim_runes_None)

lemma trim_runes_suffix: "\<exists>r. s = r @ trim_runes n runes s"
proof (induction n arbitrary: s)
  case (Suc n)
  show ?case
  proof (cases "drop_rune runes s")
    case (Some t)
    then obtain r where "s = r @ t" by (auto simp: drop_rune_def find_Some_iff HasPrefix_iff)
    moreover obtain r' where "t = r' @ trim_runes n runes t" using Suc by blast
    ultimately have "s = (r @ r') @ trim_runes (Suc n) runes s" using Some by simp
    then show ?thesis by blast
  qed simp
qed simp

lemma drop_rune_None_iff: "drop_rune runes s = None \<longleftrightarrow> (\<forall>r \<in> set runes. \<not> HasPrefix s r)"
  by (auto simp: drop_rune_def find_None_iff)

lemma trimmed_TrimSpace: "trimmed (TrimSpace s)"
proof -
  define l where "l = TrimLeft s"
  have left: "drop_rune space_runes l = None"
    unfolding l_def TrimLeft_def using space_runes_proper(1) by (rule trim_runes_done) simp
  obtain r where r: "rev l = r @ trim_runes (length l) (map rev space_runes) (rev l)"
    using trim_runes_suffix by blast
  then have "l = TrimSpace s @ rev r"
    by (metis TrimRight_def TrimSpace_def l_def length_rev rev_append rev_rev_ident)
  with left have "drop_rune space_runes (TrimSpace s) = None"
    by (auto simp: drop_rune_None_iff HasPrefix_iff)
  moreover have "drop_rune (map rev space_runes) (rev (TrimSpace s)) = None"
    unfolding TrimSpace_def TrimRight_def rev_rev_ident
    using space_runes_proper(2) by (rule trim_runes_done) simp
  ultimately show ?thesis by (simp add: trimmed_def)
qed

lemma TrimSpace_idem [simp]: "TrimSpace (TrimSpace s) = TrimSpace s"
  using trimmed_TrimSpace by (rule TrimSpace_trimmed)

text \<open>A string of printable ASCII characters is left alone.\<close>

definition graphic :: "char \<Rightarrow> bool" where
  "graphic c \<longleftrightarrow> (33 :: nat) \<le> of_char c \<and> (of_char c :: nat) \<le> 126"

lemma space_rune_ends: "r \<in> set space_runes \<Longrightarrow> r \<noteq> [] \<and> \<not> graphic (hd r) \<and> \<not> graphic (last r)"
  by (auto simp: space_runes_def graphic_def)

lemma trimmed_graphic:
  assumes "list_all graphic s"
  shows "trimmed s"
proof -
  have "\<not> HasPrefix s r" if "r \<in> set space_runes" for r
    using assms space_rune_ends [OF that] by (cases r) (auto simp: HasPrefix_iff)
  moreover have "\<not> HasPrefix (rev s) (rev r)" if "r \<in> set space_runes" for r
  proof
    assume "HasPrefix (rev s) (rev r)"
    then obtain t where "rev s = rev r @ t" by (auto simp: HasPrefix_iff)
    then have "s = rev t @ r" by (metis rev_append rev_rev_ident)
    with assms have "list_all graphic r" by simp
    with space_rune_ends [OF that] show False by (cases r) auto
  qed
  ultimately show ?thesis by (auto simp: trimmed_def drop_rune_None_iff)
qed

text \<open>So is one that only starts and ends with such characters, and a carriage return after it
  is dropped.\<close>

lemma no_space_runes:
  assumes "s \<noteq> []" and "graphic (hd s)" and "graphic (last s)"
  shows "drop_rune space_runes s = None" "drop_rune (map rev space_runes) (rev s) = None"
proof -
  have "\<not> HasPrefix s r" if "r \<in> set space_runes" for r
    using assms space_rune_ends [OF that] by (cases r) (auto simp: HasPrefix_iff)
  then show "drop_rune space_runes s = None" by (simp add: drop_rune_None_iff)
  have "\<not> HasPrefix (rev s) (rev r)" if "r \<in> set space_runes" for r
  proof
    assume "HasPrefix (rev s) (rev r)"
    then obtain t where "rev s = rev r @ t" by (auto simp: HasPrefix_iff)
    then have "s = rev t @ r" by (metis rev_append rev_rev_ident)
    with assms space_rune_ends [OF that] show False by simp
  qed
  then show "drop_rune (map rev space_runes) (rev s) = None" by (simp add: drop_rune_None_iff)
qed

lemma TrimSpace_ends:
  "s \<noteq> [] \<Longrightarrow> graphic (hd s) \<Longrightarrow> graphic (last s) \<Longrightarrow> TrimSpace s = s"
  by (intro TrimSpace_trimmed) (simp add: trimmed_def no_space_runes)

lemma drop_rune_CR: "drop_rune (map rev space_runes) (CHR 0x0D # s) = Some s"
  by (simp add: drop_rune_def space_runes_def HasPrefix_def char_of_def bit_Suc_0_iff)

lemma TrimSpace_CR:
  assumes "s \<noteq> []" and "graphic (hd s)" and "graphic (last s)"
  shows "TrimSpace (s @ [CHR 0x0D]) = s"
proof -
  have "\<not> HasPrefix (s @ [CHR 0x0D]) r" if "r \<in> set space_runes" for r
    using assms(1,2) space_rune_ends [OF that] by (cases r; cases s) (auto simp: HasPrefix_iff)
  then have "TrimLeft (s @ [CHR 0x0D]) = s @ [CHR 0x0D]"
    unfolding TrimLeft_def by (intro trim_runes_None) (simp add: drop_rune_None_iff)
  then show ?thesis
    using no_space_runes(2) [OF assms]
    by (simp add: TrimSpace_def TrimRight_def drop_rune_CR trim_runes_None)
qed

lemma TrimSpace_Nil [simp]: "TrimSpace [] = []"
  by (rule TrimSpace_trimmed) (simp add: trimmed_graphic)

lemma TrimSpace_subset: "set (TrimSpace s) \<subseteq> set s"
proof -
  have tail: "set (trim_runes n runes t) \<subseteq> set t" for n runes t
  proof -
    obtain r where "t = r @ trim_runes n runes t" using trim_runes_suffix by blast
    then have "set t = set r \<union> set (trim_runes n runes t)" by (metis set_append)
    then show ?thesis by simp
  qed
  have "set (TrimSpace s) \<subseteq> set (TrimLeft s)"
    using tail [of _ _ "rev (TrimLeft s)"] by (simp add: TrimSpace_def TrimRight_def)
  also have "\<dots> \<subseteq> set s" by (simp add: TrimLeft_def tail)
  finally show ?thesis .
qed

text \<open>\<open>strings.Fields\<close>; the accumulator is the field being read, reversed.\<close>

fun fields_from :: "nat \<Rightarrow> string \<Rightarrow> string \<Rightarrow> string list" where
  "fields_from n acc [] = (if acc = [] then [] else [rev acc])"
| "fields_from 0 acc (c # s) = []"
| "fields_from (Suc n) acc (c # s) = (case drop_rune space_runes (c # s) of
       Some t \<Rightarrow> (if acc = [] then [] else [rev acc]) @ fields_from n [] t
     | None \<Rightarrow> fields_from n (c # acc) s)"

definition Fields :: "string \<Rightarrow> string list" where
  "Fields s = fields_from (length s) [] s"

section \<open>Numbers\<close>

definition digit_char :: "nat \<Rightarrow> char" where
  "digit_char d = char_of (if d < 10 then 48 + d else 87 + d)"

definition digit_val :: "char \<Rightarrow> nat option" where
  "digit_val c = (let k = of_char c :: nat in
     if 48 \<le> k \<and> k \<le> 57 then Some (k - 48)
     else if 97 \<le> k \<and> k \<le> 102 then Some (k - 87) else None)"

lemma digit_val_char: "d < 16 \<Longrightarrow> digit_val (digit_char d) = Some d"
  by (simp add: digit_val_def digit_char_def Let_def)

fun radix_str :: "nat \<Rightarrow> nat \<Rightarrow> string" where
  "radix_str b n = (if b < 2 \<or> n < b then [digit_char n]
     else radix_str b (n div b) @ [digit_char (n mod b)])"

declare radix_str.simps [simp del]

fun radix_val :: "nat \<Rightarrow> nat \<Rightarrow> string \<Rightarrow> nat option" where
  "radix_val b acc [] = Some acc"
| "radix_val b acc (c # cs) = (case digit_val c of
       None \<Rightarrow> None
     | Some d \<Rightarrow> if d < b then radix_val b (acc * b + d) cs else None)"

lemma radix_val_append:
  "radix_val b acc (xs @ ys) = Option.bind (radix_val b acc xs) (\<lambda>a. radix_val b a ys)"
  by (induction xs arbitrary: acc) (auto split: option.split)

lemma radix_val_str:
  assumes "2 \<le> b" and "b \<le> 16"
  shows "radix_val b 0 (radix_str b n) = Some n"
proof (induction n rule: less_induct)
  case (less n)
  show ?case
  proof (cases "n < b")
    case True
    with assms show ?thesis by (subst radix_str.simps) (simp add: digit_val_char)
  next
    case False
    with assms have "n div b < n" by (intro div_less_dividend) auto
    moreover have "n mod b < b" "n mod b < 16"
      using assms mod_less_divisor [of b n] by (auto intro: less_le_trans simp del: mod_less_divisor)
    moreover have "radix_str b n = radix_str b (n div b) @ [digit_char (n mod b)]"
      using False assms by (subst radix_str.simps) simp
    ultimately show ?thesis
      using less.IH by (simp add: radix_val_append digit_val_char)
  qed
qed

lemma radix_str_inj: "2 \<le> b \<Longrightarrow> b \<le> 16 \<Longrightarrow> radix_str b m = radix_str b n \<Longrightarrow> m = n"
  by (metis option.inject radix_val_str)

lemma radix_str_not_Nil [simp]: "radix_str b n \<noteq> []"
  by (subst radix_str.simps) simp

lemma radix_str_chars:
  assumes "2 \<le> b"
  shows "set (radix_str b n) \<subseteq> digit_char ` {0..<b}"
proof (induction n rule: less_induct)
  case (less n)
  show ?case
  proof (cases "n < b")
    case True
    then show ?thesis by (subst radix_str.simps) auto
  next
    case False
    with assms have "n div b < n" by (intro div_less_dividend) auto
    with less.IH have "set (radix_str b (n div b)) \<subseteq> digit_char ` {0..<b}" .
    then show ?thesis using assms False by (subst radix_str.simps) auto
  qed
qed

text \<open>\<open>%d\<close> of an \<open>int\<close>, and \<open>%p\<close> of a pointer.\<close>

definition show_int :: "int \<Rightarrow> string" where
  "show_int n = (if n < 0 then CHR ''-'' # radix_str 10 (nat (- n)) else radix_str 10 (nat n))"

definition show_ptr :: "nat \<Rightarrow> string" where
  "show_ptr p = ''0x'' @ radix_str 16 p"

lemma show_ptr_inj [simp]: "show_ptr p = show_ptr q \<longleftrightarrow> p = q"
  by (auto simp: show_ptr_def dest: radix_str_inj [rotated 2])

text \<open>\<open>strconv.Atoi\<close>: an optional sign, decimal digits, the range of a 64-bit \<open>int\<close>.\<close>

definition atoi_digits :: "string \<Rightarrow> nat option" where
  "atoi_digits s = (if s = [] then None else radix_val 10 0 s)"

definition Atoi :: "string \<Rightarrow> int option" where
  "Atoi s = (case s of
       [] \<Rightarrow> None
     | c # cs \<Rightarrow>
         (let v = (if c = CHR ''-'' then map_option (\<lambda>k. - int k) (atoi_digits cs)
                   else map_option int (atoi_digits (if c = CHR ''+'' then cs else s)))
          in case v of None \<Rightarrow> None
             | Some k \<Rightarrow> if - (2 ^ 63) \<le> k \<and> k < 2 ^ 63 then Some k else None))"

lemma radix_str_hd:
  "radix_str 10 n \<noteq> CHR ''-'' # s" "radix_str 10 n \<noteq> CHR ''+'' # s"
proof -
  have "digit_char d \<notin> {CHR ''-'', CHR ''+''}" if "d < 10" for d
  proof -
    have "of_char (digit_char d) = (48 + d :: nat)" using that by (simp add: digit_char_def)
    then show ?thesis by (auto simp: that)
  qed
  then show "radix_str 10 n \<noteq> CHR ''-'' # s" "radix_str 10 n \<noteq> CHR ''+'' # s"
    using radix_str_chars [of 10 n] by fastforce+
qed

lemma show_int_inj: "0 \<le> a \<Longrightarrow> 0 \<le> b \<Longrightarrow> show_int a = show_int b \<Longrightarrow> a = b"
  by (auto simp: show_int_def dest!: radix_str_inj [rotated 2])

lemma Atoi_show_int:
  assumes "- (2 ^ 63) \<le> n" and "n < 2 ^ 63"
  shows "Atoi (show_int n) = Some n"
proof (cases "n < 0")
  case True
  with assms show ?thesis
    by (simp add: Atoi_def show_int_def atoi_digits_def radix_val_str)
next
  case False
  then have s: "show_int n = radix_str 10 (nat n)" by (simp add: show_int_def)
  obtain c cs where c: "radix_str 10 (nat n) = c # cs" by (cases "radix_str 10 (nat n)") auto
  with radix_str_hd have "c \<noteq> CHR ''-''" "c \<noteq> CHR ''+''" by metis+
  moreover have "atoi_digits (c # cs) = Some (nat n)"
    using radix_val_str [of 10 "nat n"] by (simp add: atoi_digits_def c)
  ultimately show ?thesis using False assms by (simp add: Atoi_def s c Let_def)
qed

end
