(* ===== verification/Cluster.thy ===== *)
theory Cluster
  imports GoStrings
begin

text \<open>
  \<^verbatim>\<open>pkg/cluster/cluster.go\<close>: the static membership and the choice of the owner of a
  topic by rendezvous hashing.  The hash (xxhash) is a library function; it is the
  argument \<open>sum64\<close>, any function from byte strings to 64-bit words.
\<close>

record cluster =
  nodes :: "string list"
  nodeSet :: "string set"
  self_name :: string
  draining :: "(string, bool) fmap"

datatype cluster_error = EmptyClusterNodes | NoValidClusterNodes

text \<open>The loop over the parts of the list.\<close>

fun add_nodes :: "string list \<Rightarrow> cluster \<Rightarrow> cluster" where
  "add_nodes [] c = c"
| "add_nodes (p # ps) c = (let p' = TrimSpace p in
     if p' = [] then add_nodes ps c
     else add_nodes ps (c\<lparr>nodes := nodes c @ [p'], nodeSet := insert p' (nodeSet c)\<rparr>))"

definition NewFromCSV :: "string \<Rightarrow> string \<Rightarrow> cluster_error + cluster" where
  "NewFromCSV nodeList self =
     (let c = \<lparr>nodes = [], nodeSet = {}, self_name = [], draining = fmempty\<rparr> in
      if nodeList = [] then Inl EmptyClusterNodes
      else let c1 = add_nodes (Split (CHR '','') nodeList) c in
        if length (nodes c1) = 0 then Inl NoValidClusterNodes
        else let self' = (if self = [] then nodes c1 ! 0 else self) in
          if self' \<notin> nodeSet c1 then Inr (c1\<lparr>self_name := self'\<rparr>)
          else Inr (c1\<lparr>self_name := self'\<rparr>))"

definition Members :: "cluster \<Rightarrow> string list" where
  "Members c = nodes c"

definition is_draining_flag :: "cluster \<Rightarrow> string \<Rightarrow> bool" where
  "is_draining_flag c n = (case fmlookup (draining c) n of None \<Rightarrow> False | Some d \<Rightarrow> d)"

text \<open>The loop of \<open>Owner\<close>: the best node so far and its score.\<close>

fun owner_loop ::
    "(string \<Rightarrow> 64 word) \<Rightarrow> cluster \<Rightarrow> string \<Rightarrow> string list \<Rightarrow> string \<Rightarrow> 64 word \<Rightarrow> string" where
  "owner_loop sum64 c topic [] best bestScore = best"
| "owner_loop sum64 c topic (n # ns) best bestScore =
     (if is_draining_flag c n then owner_loop sum64 c topic ns best bestScore
      else let score = sum64 (n @ ''|'' @ topic) in
        if best = [] \<or> bestScore < score then owner_loop sum64 c topic ns n score
        else owner_loop sum64 c topic ns best bestScore)"

definition Owner :: "(string \<Rightarrow> 64 word) \<Rightarrow> cluster \<Rightarrow> string \<Rightarrow> string" where
  "Owner sum64 c topic = owner_loop sum64 c topic (nodes c) [] 0"

definition IsSelf :: "cluster \<Rightarrow> string \<Rightarrow> bool" where
  "IsSelf c n \<longleftrightarrow> n = self_name c"

definition Self :: "cluster \<Rightarrow> string" where
  "Self c = self_name c"

definition SetDraining :: "string \<Rightarrow> bool \<Rightarrow> cluster \<Rightarrow> cluster" where
  "SetDraining n d c = (if n \<in> nodeSet c then c\<lparr>draining := fmupd n d (draining c)\<rparr> else c)"

definition IsDraining :: "cluster \<Rightarrow> string \<Rightarrow> bool" where
  "IsDraining c n = (case fmlookup (draining c) n of Some d \<Rightarrow> d | None \<Rightarrow> False)"

lemma is_draining_flag [simp]: "is_draining_flag c n = IsDraining c n"
  by (simp add: is_draining_flag_def IsDraining_def split: option.split)

section \<open>The invariant\<close>

definition cluster_ok :: "cluster \<Rightarrow> bool" where [inv_defs]:
  "cluster_ok c \<longleftrightarrow> nodes c \<noteq> [] \<and> [] \<notin> set (nodes c) \<and> nodeSet c = set (nodes c)
     \<and> (\<forall>n. IsDraining c n \<longrightarrow> n \<in> set (nodes c))"

lemma cluster_ok_SetDraining [inv_intros]: "cluster_ok c \<Longrightarrow> cluster_ok (SetDraining n d c)"
  by (auto simp: cluster_ok_def SetDraining_def IsDraining_def)

lemma IsDraining_SetDraining:
  "IsDraining (SetDraining n d c) k = (if k = n \<and> n \<in> nodeSet c then d else IsDraining c k)"
  by (simp add: SetDraining_def IsDraining_def)

lemma SetDraining_frame [simp]:
  "nodes (SetDraining n d c) = nodes c" "nodeSet (SetDraining n d c) = nodeSet c"
  "self_name (SetDraining n d c) = self_name c"
  by (simp_all add: SetDraining_def)

definition node_names :: "string \<Rightarrow> string list" where
  "node_names csv = filter (\<lambda>p. p \<noteq> []) (map TrimSpace (Split (CHR '','') csv))"

lemma add_nodes_eq:
  "add_nodes ps c = c\<lparr>nodes := nodes c @ filter (\<lambda>p. p \<noteq> []) (map TrimSpace ps),
     nodeSet := nodeSet c \<union> set (filter (\<lambda>p. p \<noteq> []) (map TrimSpace ps))\<rparr>"
  by (induction ps arbitrary: c) (auto simp: Let_def)

lemma NewFromCSV_eq:
  "NewFromCSV csv self =
     (if csv = [] then Inl EmptyClusterNodes
      else if node_names csv = [] then Inl NoValidClusterNodes
      else Inr \<lparr>nodes = node_names csv, nodeSet = set (node_names csv),
        self_name = (if self = [] then hd (node_names csv) else self), draining = fmempty\<rparr>)"
  by (auto simp: NewFromCSV_def add_nodes_eq Let_def hd_conv_nth simp flip: node_names_def)

lemma cluster_ok_NewFromCSV [inv_intros]: "NewFromCSV csv self = Inr c \<Longrightarrow> cluster_ok c"
  by (auto simp: NewFromCSV_eq cluster_ok_def IsDraining_def node_names_def split: if_splits)

section \<open>The owner\<close>

definition eligible :: "cluster \<Rightarrow> string list" where
  "eligible c = filter (\<lambda>n. \<not> IsDraining c n) (nodes c)"

definition score_of :: "(string \<Rightarrow> 64 word) \<Rightarrow> string \<Rightarrow> string \<Rightarrow> 64 word" where
  "score_of sum64 topic n = sum64 (n @ ''|'' @ topic)"

lemma owner_loop_Cons:
  "owner_loop sum64 c topic (n # ns) best bestScore =
     (if IsDraining c n then owner_loop sum64 c topic ns best bestScore
      else if best = [] \<or> bestScore < score_of sum64 topic n
        then owner_loop sum64 c topic ns n (score_of sum64 topic n)
      else owner_loop sum64 c topic ns best bestScore)"
  by (simp add: score_of_def Let_def)

declare owner_loop.simps(2) [simp del]

text \<open>The first element with the largest score.\<close>

definition first_best :: "('a \<Rightarrow> 'b::linorder) \<Rightarrow> 'a list \<Rightarrow> 'a \<Rightarrow> bool" where
  "first_best f xs b \<longleftrightarrow> (\<exists>ys zs. xs = ys @ b # zs \<and> (\<forall>y \<in> set ys. f y < f b)
     \<and> (\<forall>z \<in> set zs. f z \<le> f b))"

lemma first_best_mem: "first_best f xs b \<Longrightarrow> b \<in> set xs"
  by (auto simp: first_best_def)

lemma first_best_max: "first_best f xs b \<Longrightarrow> x \<in> set xs \<Longrightarrow> f x \<le> f b"
  unfolding first_best_def by (metis Un_iff less_imp_le order_refl set_ConsD set_append)

lemma first_best_unique:
  assumes "first_best f xs b" and "first_best f xs b'"
  shows "b = b'"
proof -
  obtain ys zs where 1: "xs = ys @ b # zs" "\<forall>y \<in> set ys. f y < f b"
    using assms(1) by (auto simp: first_best_def)
  obtain ys' zs' where 2: "xs = ys' @ b' # zs'" "\<forall>y \<in> set ys'. f y < f b'"
    using assms(2) by (auto simp: first_best_def)
  have eq: "f b = f b'"
    using assms first_best_mem first_best_max by (metis order_antisym)
  have "b' \<notin> set ys" "b \<notin> set ys'" using 1(2) 2(2) eq by auto
  with 1(1) 2(1) show ?thesis
    by (auto simp: append_eq_append_conv2 Cons_eq_append_conv append_eq_Cons_conv)
qed

lemma first_best_snoc:
  "first_best f xs b \<Longrightarrow> first_best f (xs @ [x]) (if f b < f x then x else b)"
proof -
  assume "first_best f xs b"
  then obtain ys zs where xs: "xs = ys @ b # zs" "\<forall>y \<in> set ys. f y < f b" "\<forall>z \<in> set zs. f z \<le> f b"
    by (auto simp: first_best_def)
  show ?thesis
  proof (cases "f b < f x")
    case True
    with xs have "\<forall>y \<in> set xs. f y < f x" by auto
    with True show ?thesis unfolding first_best_def by (intro exI [of _ xs] exI [of _ "[]"]) simp
  next
    case False
    with xs show ?thesis unfolding first_best_def
      by (intro exI [of _ ys] exI [of _ "zs @ [x]"]) auto
  qed
qed

lemma owner_loop_first_best:
  assumes "[] \<notin> set ns"
    and "first_best (score_of sum64 topic) seen best" and "best \<noteq> []"
    and "bestScore = score_of sum64 topic best"
  shows "first_best (score_of sum64 topic) (seen @ filter (\<lambda>n. \<not> IsDraining c n) ns)
    (owner_loop sum64 c topic ns best bestScore)"
  using assms
proof (induction ns arbitrary: seen best bestScore)
  case (Cons n ns)
  show ?case
  proof (cases "IsDraining c n")
    case False
    from Cons.prems(2) have "first_best (score_of sum64 topic) (seen @ [n])
        (if score_of sum64 topic best < score_of sum64 topic n then n else best)"
      by (rule first_best_snoc)
    with False Cons.prems Cons.IH [of "seen @ [n]"] show ?thesis
      by (auto simp: owner_loop_Cons)
  qed (use Cons in \<open>simp add: owner_loop_Cons\<close>)
qed simp

lemma Owner_first_best:
  assumes "[] \<notin> set (nodes c)"
  shows "if eligible c = [] then Owner sum64 c topic = []
    else first_best (score_of sum64 topic) (eligible c) (Owner sum64 c topic)"
proof -
  have "if filter (\<lambda>n. \<not> IsDraining c n) ns = [] then owner_loop sum64 c topic ns [] 0 = []
      else first_best (score_of sum64 topic) (filter (\<lambda>n. \<not> IsDraining c n) ns)
        (owner_loop sum64 c topic ns [] 0)" if "[] \<notin> set ns" for ns
    using that
  proof (induction ns)
    case (Cons n ns)
    have "first_best (score_of sum64 topic) ([] @ n # []) n" unfolding first_best_def by fastforce
    with Cons owner_loop_first_best [of ns sum64 topic "[n]" n _ c] show ?case
      by (auto simp: owner_loop_Cons)
  qed simp
  with assms show ?thesis by (simp add: Owner_def eligible_def)
qed

lemma Owner_cases:
  assumes "[] \<notin> set (nodes c)"
  obtains (none) "eligible c = []" "Owner sum64 c topic = []"
    | (some) "first_best (score_of sum64 topic) (eligible c) (Owner sum64 c topic)"
        "Owner sum64 c topic \<in> set (nodes c)" "\<not> IsDraining c (Owner sum64 c topic)"
        "Owner sum64 c topic \<noteq> []"
proof (cases "eligible c = []")
  case True
  with Owner_first_best [OF assms] none show ?thesis by simp
next
  case False
  then have best: "first_best (score_of sum64 topic) (eligible c) (Owner sum64 c topic)"
    using Owner_first_best [OF assms] by simp
  then have "Owner sum64 c topic \<in> set (eligible c)" by (rule first_best_mem)
  then have "Owner sum64 c topic \<in> set (nodes c)" "\<not> IsDraining c (Owner sum64 c topic)"
    by (auto simp: eligible_def)
  with best assms show ?thesis by (intro some) auto
qed

lemma first_best_filter:
  assumes "first_best f xs b" and "P b"
  shows "first_best f (filter P xs) b"
  using assms unfolding first_best_def by fastforce

lemma first_best_inj:
  assumes "first_best f xs b" and "first_best f ys b'" and "set xs = set ys"
    and "inj_on f (set xs)"
  shows "b = b'"
proof -
  have "f b' \<le> f b" "f b \<le> f b'"
    using assms first_best_mem first_best_max by metis+
  then have "f b = f b'" by simp
  moreover have "b \<in> set xs" "b' \<in> set xs" using assms first_best_mem by metis+
  ultimately show ?thesis using assms(4) by (simp add: inj_on_def)
qed

end
