(* ===== verification/ClusterTheorems.thy ===== *)
theory ClusterTheorems
  imports Cluster
begin

text \<open>
  The properties of the owner selection, and the contract the RTSP server relies on
  when it decides between serving a topic and forwarding it.
\<close>

section \<open>The owner of a topic\<close>

text \<open>C15: The owner of a topic is the first of the nodes that are not draining with the
  highest score, and no node is the owner exactly when all of them are draining.\<close>

theorem owner_is_highest_score:
  assumes "cluster_ok c"
  shows "(Owner sum64 c topic = [] \<longleftrightarrow> (\<forall>n \<in> set (nodes c). IsDraining c n))
    \<and> (Owner sum64 c topic \<noteq> [] \<longrightarrow>
        (\<exists>before after. filter (\<lambda>n. \<not> IsDraining c n) (nodes c)
            = before @ Owner sum64 c topic # after
          \<and> (\<forall>n \<in> set before. score_of sum64 topic n < score_of sum64 topic (Owner sum64 c topic))
          \<and> (\<forall>n \<in> set after. score_of sum64 topic n \<le> score_of sum64 topic (Owner sum64 c topic))))"
proof -
  have "[] \<notin> set (nodes c)" using assms by (simp add: cluster_ok_def)
  then show ?thesis
  proof (cases rule: Owner_cases [of c sum64 topic])
    case none
    then show ?thesis by (auto simp: eligible_def filter_empty_conv)
  next
    case some
    then show ?thesis by (auto simp: first_best_def eligible_def)
  qed
qed

text \<open>A hash for concrete runs: the sum of the bytes.\<close>

definition byte_sum :: "string \<Rightarrow> 64 word" where
  "byte_sum s = word_of_nat (sum_list (map of_char s))"

definition demo_cluster :: cluster where
  "demo_cluster = \<lparr>nodes = [''n1'', ''n3'', ''n2''], nodeSet = {''n1'', ''n3'', ''n2''},
     self_name = ''n1'', draining = fmempty\<rparr>"

lemma demo_cluster_ok: "cluster_ok demo_cluster"
  by (simp add: cluster_ok_def demo_cluster_def IsDraining_def insert_commute)

lemma demo_owner: "Owner byte_sum demo_cluster ''cam'' = ''n3''"
  by (simp add: Owner_def demo_cluster_def IsDraining_def byte_sum_def score_of_def owner_loop_Cons)

theorem owner_is_highest_score_witness:
  "Owner byte_sum demo_cluster ''cam'' = ''n3''
   \<and> (\<exists>before after. nodes demo_cluster = before @ ''n3'' # after
     \<and> (\<forall>n \<in> set before. score_of byte_sum ''cam'' n < score_of byte_sum ''cam'' ''n3''))"
proof -
  have "filter (\<lambda>n. \<not> IsDraining demo_cluster n) (nodes demo_cluster) = nodes demo_cluster"
    by (simp add: demo_cluster_def IsDraining_def)
  with owner_is_highest_score [OF demo_cluster_ok, of byte_sum "''cam''"] demo_owner
  show ?thesis by auto
qed

lemma Owner_eqI:
  assumes "cluster_ok c" and "first_best (score_of sum64 topic) (eligible c) b"
  shows "Owner sum64 c topic = b"
proof -
  have "[] \<notin> set (nodes c)" using assms(1) by (simp add: cluster_ok_def)
  then show ?thesis
  proof (cases rule: Owner_cases [of c sum64 topic])
    case none
    with assms(2) show ?thesis by (simp add: first_best_def)
  next
    case some
    with assms(2) show ?thesis by (metis first_best_unique)
  qed
qed

lemma Owner_cong:
  assumes "cluster_ok c" and "cluster_ok c'" and "eligible c' = eligible c"
  shows "Owner sum64 c' topic = Owner sum64 c topic"
proof -
  have "[] \<notin> set (nodes c)" and nil: "[] \<notin> set (nodes c')"
    using assms(1,2) by (simp_all add: cluster_ok_def)
  then show ?thesis
  proof (cases rule: Owner_cases [of c sum64 topic])
    case none
    with Owner_first_best [OF nil, of sum64 topic] assms(3) show ?thesis by simp
  next
    case some
    with assms show ?thesis by (intro Owner_eqI) simp_all
  qed
qed

lemma eligible_drained:
  "cluster_ok c \<Longrightarrow> eligible (SetDraining n True c) = filter (\<lambda>k. k \<noteq> n) (eligible c)"
  by (auto simp: eligible_def IsDraining_SetDraining cluster_ok_def intro!: filter_cong)

lemma drained_owner_stays:
  assumes "cluster_ok c" and "Owner sum64 c topic \<noteq> n"
  shows "Owner sum64 (SetDraining n True c) topic = Owner sum64 c topic"
proof -
  let ?c = "SetDraining n True c"
  have nil: "[] \<notin> set (nodes c)" using assms(1) by (simp add: cluster_ok_def)
  then show ?thesis
  proof (cases rule: Owner_cases [of c sum64 topic])
    case none
    with Owner_first_best [of ?c sum64 topic] nil assms(1) show ?thesis
      by (simp add: eligible_drained)
  next
    case some
    then show ?thesis
      using assms by (intro Owner_eqI)
        (simp_all add: eligible_drained first_best_filter cluster_ok_SetDraining)
  qed
qed

text \<open>Draining a node moves only the topics that node owns, and taking it back moves
  topics only to that node: no other topic changes its owner.\<close>

theorem draining_moves_only_its_topics:
  assumes "cluster_ok c"
  shows "(Owner sum64 c topic \<noteq> n \<longrightarrow> Owner sum64 (SetDraining n True c) topic = Owner sum64 c topic)
    \<and> Owner sum64 (SetDraining n False c) topic \<in> {Owner sum64 c topic, n}"
proof -
  let ?c = "SetDraining n False c"
  have ok: "cluster_ok ?c" using assms by (rule cluster_ok_SetDraining)
  have "Owner sum64 ?c topic = Owner sum64 c topic" if other: "Owner sum64 ?c topic \<noteq> n"
  proof (cases "IsDraining c n")
    case True
    with assms have "n \<in> nodeSet c" by (auto simp: cluster_ok_def)
    with True have "eligible (SetDraining n True ?c) = eligible c"
      by (auto simp: eligible_def IsDraining_SetDraining intro!: filter_cong)
    with drained_owner_stays [OF ok other] show ?thesis
      using Owner_cong [OF assms cluster_ok_SetDraining [OF ok]] by metis
  next
    case False
    then have "eligible ?c = eligible c"
      by (auto simp: eligible_def IsDraining_SetDraining intro!: filter_cong)
    then show ?thesis using Owner_cong [OF assms ok] by metis
  qed
  then show ?thesis using drained_owner_stays [OF assms] by blast
qed

theorem draining_moves_only_its_topics_witness:
  "Owner byte_sum demo_cluster ''cam'' = ''n3''
   \<and> Owner byte_sum (SetDraining ''n2'' True demo_cluster) ''cam'' = ''n3''
   \<and> Owner byte_sum (SetDraining ''n2'' False demo_cluster) ''cam'' \<in> {''n3'', ''n2''}"
  using draining_moves_only_its_topics [OF demo_cluster_ok, of byte_sum "''cam''" "''n2''"] demo_owner
  by auto

section \<open>The routing contract\<close>

text \<open>
  What the RTSP server needs of a view of the cluster: which node owns a topic, whether
  a name is its own, and that views that agree about a topic name the same owner.
\<close>

locale topic_routing =
  fixes owner :: "'v \<Rightarrow> string \<Rightarrow> string"
    and is_self :: "'v \<Rightarrow> string \<Rightarrow> bool"
    and name_of :: "'v \<Rightarrow> string"
    and agree :: "string \<Rightarrow> 'v \<Rightarrow> 'v \<Rightarrow> bool"
  assumes is_self_iff: "is_self v n \<longleftrightarrow> n = name_of v"
    and agree_owner: "agree t v v' \<Longrightarrow> owner v' t = owner v t"
begin

text \<open>A node to which a topic is forwarded serves it.\<close>

lemma forwarded_once:
  "agree t v v' \<Longrightarrow> name_of v' = owner v t \<Longrightarrow> is_self v' (owner v' t)"
  by (simp add: is_self_iff agree_owner)

text \<open>No two nodes of different names serve the same topic.\<close>

lemma served_once:
  "agree t v v' \<Longrightarrow> is_self v (owner v t) \<Longrightarrow> is_self v' (owner v' t) \<Longrightarrow> name_of v = name_of v'"
  by (simp add: is_self_iff agree_owner)

end

definition same_cluster :: "(string \<Rightarrow> 64 word) \<Rightarrow> string \<Rightarrow> cluster \<Rightarrow> cluster \<Rightarrow> bool" where
  "same_cluster sum64 topic c c' \<longleftrightarrow> cluster_ok c \<and> cluster_ok c'
     \<and> set (nodes c') = set (nodes c) \<and> (\<forall>n \<in> set (nodes c). IsDraining c' n = IsDraining c n)
     \<and> inj_on (score_of sum64 topic) (set (nodes c))"

lemma same_cluster_owner:
  assumes "same_cluster sum64 topic c c'"
  shows "Owner sum64 c' topic = Owner sum64 c topic"
proof -
  have eq: "set (eligible c') = set (eligible c)" using assms by (auto simp: same_cluster_def eligible_def)
  have nil: "[] \<notin> set (nodes c)" "[] \<notin> set (nodes c')"
    using assms by (simp_all add: same_cluster_def cluster_ok_def)
  have inj: "inj_on (score_of sum64 topic) (set (eligible c))"
    using assms by (auto simp: same_cluster_def eligible_def intro: inj_on_subset)
  show ?thesis
  proof (cases "eligible c = []")
    case True
    with eq have "eligible c' = []" by simp
    with True Owner_first_best [OF nil(1), of sum64 topic] Owner_first_best [OF nil(2), of sum64 topic]
    show ?thesis by simp
  next
    case False
    with eq have "eligible c' \<noteq> []" by auto
    with False have "first_best (score_of sum64 topic) (eligible c) (Owner sum64 c topic)"
      and "first_best (score_of sum64 topic) (eligible c') (Owner sum64 c' topic)"
      using Owner_first_best [OF nil(1), of sum64 topic] Owner_first_best [OF nil(2), of sum64 topic]
      by simp_all
    then show ?thesis using first_best_inj [OF _ _ _ inj] eq by metis
  qed
qed

interpretation cluster_view: topic_routing "Owner sum64" IsSelf Self "same_cluster sum64"
  for sum64
  by unfold_locales (auto simp: IsSelf_def Self_def same_cluster_owner)

text \<open>C16: The list of nodes may be written in any order on the different machines: when two
  nodes have the same members and the same draining flags, and no two members have the
  same score for the topic, they agree on its owner,
  and at most one name is served as the owner.\<close>

theorem owner_is_agreed:
  assumes "cluster_ok c" and "cluster_ok c'" and "set (nodes c') = set (nodes c)"
    and "\<forall>n \<in> set (nodes c). IsDraining c' n = IsDraining c n"
    and "inj_on (score_of sum64 topic) (set (nodes c))"
  shows "Owner sum64 c' topic = Owner sum64 c topic
    \<and> (IsSelf c (Owner sum64 c topic) \<longrightarrow> IsSelf c' (Owner sum64 c' topic) \<longrightarrow> Self c' = Self c)"
proof -
  have same: "same_cluster sum64 topic c c'" using assms by (simp add: same_cluster_def)
  show ?thesis
    using cluster_view.agree_owner [OF same] cluster_view.served_once [OF same] by metis
qed

theorem owner_is_agreed_witness:
  "Owner byte_sum (demo_cluster\<lparr>nodes := [''n2'', ''n3'', ''n1''], self_name := ''n2''\<rparr>) ''cam''
     = Owner byte_sum demo_cluster ''cam''"
proof (rule owner_is_agreed [THEN conjunct1, OF demo_cluster_ok])
  show "cluster_ok (demo_cluster\<lparr>nodes := [''n2'', ''n3'', ''n1''], self_name := ''n2''\<rparr>)"
    by (auto simp: cluster_ok_def demo_cluster_def IsDraining_def)
  show "inj_on (score_of byte_sum ''cam'') (set (nodes demo_cluster))"
    by (simp add: inj_on_def demo_cluster_def score_of_def byte_sum_def)
qed (auto simp: demo_cluster_def IsDraining_def)

section \<open>Reading the list of nodes\<close>

lemma node_names_Join:
  assumes "ns \<noteq> []" and "\<forall>n \<in> set ns. n \<noteq> [] \<and> CHR '','' \<notin> set n \<and> trimmed n"
  shows "node_names (Join (CHR '','') ns) = ns"
proof -
  have "node_names (Join (CHR '','') ns) = filter (\<lambda>p. p \<noteq> []) (map TrimSpace ns)"
    using assms by (simp add: node_names_def Split_Join)
  also have "\<dots> = ns"
    using assms(2) by (induction ns) (auto simp: TrimSpace_trimmed)
  finally show ?thesis .
qed



end
