(* ===== verification/UdpAlloc.thy ===== *)
theory UdpAlloc
  imports Metrics GoStrings
begin

text \<open>
  \<^verbatim>\<open>pkg/udpalloc/allocator.go\<close>: reservations of RTP/RTCP port pairs, and
  \<^verbatim>\<open>cmd/rtsper/validate_udp.go\<close>, which tries a fixed set of ports.

  The sockets of the process are part of the state: a socket is a number, the table of
  open sockets gives its port, and the system refuses a port that is invalid, open
  already, or refused for a reason outside the process (another process holds it).
  Ports are unbounded integers; the sums of the code do not overflow for a range that
  ends below \<open>2 ^ 63 - 2\<close>.
\<close>

section \<open>Sockets\<close>

type_synonym conn = nat

record udp_os =
  sockets :: "(conn, int) fmap"
  refused :: "int set"
  next_conn :: conn

definition port_open :: "udp_os \<Rightarrow> int \<Rightarrow> bool" where
  "port_open os p \<longleftrightarrow> p \<in> fmran' (sockets os)"

definition bindable :: "udp_os \<Rightarrow> int \<Rightarrow> bool" where
  "bindable os p \<longleftrightarrow> 0 < p \<and> p \<le> 65535 \<and> p \<notin> refused os \<and> \<not> port_open os p"

definition listen_udp :: "int \<Rightarrow> udp_os \<Rightarrow> (conn \<times> udp_os) option" where
  "listen_udp p os = (if bindable os p
     then Some (next_conn os, os\<lparr>sockets := fmupd (next_conn os) p (sockets os),
                                 next_conn := Suc (next_conn os)\<rparr>)
     else None)"

definition close_conn :: "conn \<Rightarrow> udp_os \<Rightarrow> udp_os" where
  "close_conn c os = os\<lparr>sockets := fmdrop c (sockets os)\<rparr>"

section \<open>The allocator\<close>

record allocator =
  a_start :: int
  a_end :: int
  reserved :: "(int, conn) fmap"

definition NewAllocator :: "int \<Rightarrow> int \<Rightarrow> allocator option" where
  "NewAllocator start end' =
     (if start \<le> 0 \<or> end' \<le> 0 \<or> end' < start then None
      else let start' = (if go_rem start 2 \<noteq> 0 then start + 1 else start)
        in Some \<lparr>a_start = start', a_end = end', reserved = fmempty\<rparr>)"

text \<open>The loop of \<open>ReservePair\<close>; \<open>None\<close> is the error \<open>no available ports\<close>.\<close>

function reserve_from ::
    "int \<Rightarrow> allocator \<Rightarrow> udp_os \<Rightarrow> metrics \<Rightarrow> int option \<times> allocator \<times> udp_os \<times> metrics" where
  "reserve_from p a os mt =
     (if a_end a < p then (None, a, os, mt)
      else if fmlookup (reserved a) p \<noteq> None then reserve_from (p + 2) a os mt
      else (case listen_udp p os of
          None \<Rightarrow> reserve_from (p + 2) a os mt
        | Some (rtp, os1) \<Rightarrow> (case listen_udp (p + 1) os1 of
              None \<Rightarrow> reserve_from (p + 2) a (close_conn rtp os1) mt
            | Some (rtcp, os2) \<Rightarrow>
                (Some p,
                 a\<lparr>reserved := fmupd (p + 1) rtcp (fmupd p rtp (reserved a))\<rparr>, os2,
                 IncAllocatorReservedPairs (IncAllocatorReservations mt)))))"
  by pat_completeness auto
termination
  by (relation "measure (\<lambda>(p, a, _, _). nat (a_end a + 1 - p))") auto

declare reserve_from.simps [simp del]

definition ReservePair ::
    "allocator \<Rightarrow> udp_os \<Rightarrow> metrics \<Rightarrow> int option \<times> allocator \<times> udp_os \<times> metrics" where
  "ReservePair a os mt = reserve_from (a_start a) a os mt"

text \<open>One \<open>if\<close> of the release function.\<close>

definition release_port :: "int \<Rightarrow> allocator \<times> udp_os \<Rightarrow> allocator \<times> udp_os" where
  "release_port p = (\<lambda>(a, os). case fmlookup (reserved a) p of
       None \<Rightarrow> (a, os)
     | Some c \<Rightarrow> (a\<lparr>reserved := fmdrop p (reserved a)\<rparr>, close_conn c os))"

text \<open>The release function that \<open>ReservePair\<close> returned for the base port \<open>p\<close>.\<close>

definition release :: "int \<Rightarrow> allocator \<times> udp_os \<Rightarrow> allocator \<times> udp_os" where
  "release p s = release_port (p + 1) (release_port p s)"

definition GetConn :: "allocator \<Rightarrow> int \<Rightarrow> conn option" where
  "GetConn a port = fmlookup (reserved a) port"

section \<open>validateUDPConfig\<close>

datatype udp_config_error =
    PublisherBaseNotSet
  | PublisherBaseOdd
  | SubscriberBaseNotSet
  | SubscriberBaseOdd
  | BindFailed int

fun close_all :: "conn list \<Rightarrow> udp_os \<Rightarrow> udp_os" where
  "close_all [] os = os"
| "close_all (c # cs) os = close_all cs (close_conn c os)"

fun bind_all :: "int list \<Rightarrow> conn list \<Rightarrow> udp_os \<Rightarrow> udp_config_error option \<times> udp_os" where
  "bind_all [] conns os = (None, close_all conns os)"
| "bind_all (p # ps) conns os = (case listen_udp p os of
       None \<Rightarrow> (Some (BindFailed p), close_all conns os)
     | Some (pc, os') \<Rightarrow> bind_all ps (conns @ [pc]) os')"

definition validateUDPConfig :: "int \<Rightarrow> int \<Rightarrow> udp_os \<Rightarrow> udp_config_error option \<times> udp_os" where
  "validateUDPConfig pubBase subBase os =
     (if pubBase = 0 then (Some PublisherBaseNotSet, os)
      else if go_rem pubBase 2 \<noteq> 0 then (Some PublisherBaseOdd, os)
      else if subBase = 0 then (Some SubscriberBaseNotSet, os)
      else if go_rem subBase 2 \<noteq> 0 then (Some SubscriberBaseOdd, os)
      else bind_all [pubBase, pubBase + 1, subBase, subBase + 1] [] os)"

section \<open>Invariants\<close>

text \<open>Numbers of sockets are fresh, and no port is open twice.\<close>

definition os_ok :: "udp_os \<Rightarrow> bool" where [inv_defs]:
  "os_ok os \<longleftrightarrow> (\<forall>c p. fmlookup (sockets os) c = Some p \<longrightarrow> c < next_conn os)
     \<and> (\<forall>c d p. fmlookup (sockets os) c = Some p \<longrightarrow> fmlookup (sockets os) d = Some p \<longrightarrow> c = d)"

text \<open>
  Every reserved port has an open socket; the reserved ports come in pairs from the
  range, the even port first.
\<close>

definition alloc_ok :: "allocator \<Rightarrow> udp_os \<Rightarrow> bool" where [inv_defs]:
  "alloc_ok a os \<longleftrightarrow> os_ok os \<and> even (a_start a) \<and> 0 < a_start a
     \<and> (\<forall>p c. fmlookup (reserved a) p = Some c \<longrightarrow> fmlookup (sockets os) c = Some p
          \<and> a_start a \<le> p \<and> p \<le> a_end a + 1)
     \<and> (\<forall>p. even p \<longrightarrow> (fmlookup (reserved a) p = None) = (fmlookup (reserved a) (p + 1) = None))
     \<and> (\<forall>p. even p \<longrightarrow> fmlookup (reserved a) p \<noteq> None \<longrightarrow> p \<le> a_end a)"

lemma fmran'_iff: "y \<in> fmran' m \<longleftrightarrow> (\<exists>x. fmlookup m x = Some y)"
  by (auto simp: fmran'_alt_def intro: fmranI elim: fmranE)

lemma listen_udp_Some:
  assumes "listen_udp p os = Some (c, os')" and "os_ok os"
  shows "os_ok os'" "bindable os p" "fmlookup (sockets os) c = None" "refused os' = refused os"
    "sockets os' = fmupd c p (sockets os)" "\<And>q. bindable os' q \<longleftrightarrow> bindable os q \<and> q \<noteq> p"
    "\<And>q. port_open os' q \<longleftrightarrow> port_open os q \<or> q = p"
proof -
  have os': "os' = os\<lparr>sockets := fmupd (next_conn os) p (sockets os), next_conn := Suc (next_conn os)\<rparr>"
    and c: "c = next_conn os" and p: "bindable os p"
    using assms(1) by (auto simp: listen_udp_def split: if_splits)
  then show "bindable os p" "refused os' = refused os" "sockets os' = fmupd c p (sockets os)"
    by simp_all
  show new: "fmlookup (sockets os) c = None"
    using assms(2) c by (metis less_irrefl option.exhaust os_ok_def)
  have free: "fmlookup (sockets os) d \<noteq> Some p" for d
    using p by (auto simp: bindable_def port_open_def fmran'_iff)
  show "os_ok os'"
    using assms(2) free unfolding os' os_ok_def by (auto simp: less_Suc_eq)
  show "port_open os' q \<longleftrightarrow> port_open os q \<or> q = p" for q
    using new unfolding os' c port_open_def fmran'_iff by auto (metis option.distinct(1))
  then show "bindable os' q \<longleftrightarrow> bindable os q \<and> q \<noteq> p" for q
    unfolding bindable_def by (auto simp: os')
qed

lemma listen_udp_iff: "(\<exists>c os'. listen_udp p os = Some (c, os')) \<longleftrightarrow> bindable os p"
  by (auto simp: listen_udp_def)

lemma close_conn_ok [inv_intros]: "os_ok os \<Longrightarrow> os_ok (close_conn c os)"
  by (auto simp: os_ok_def close_conn_def split: if_splits)

lemma port_open_close_conn:
  assumes "os_ok os" and "fmlookup (sockets os) c = Some p"
  shows "port_open (close_conn c os) q \<longleftrightarrow> port_open os q \<and> q \<noteq> p"
  using assms unfolding port_open_def fmran'_iff close_conn_def os_ok_def
  by auto

text \<open>Opening a port and closing it again leaves every table as it was.\<close>

lemma listen_close:
  assumes "listen_udp p os = Some (c, os')" and "os_ok os"
  shows "sockets (close_conn c os') = sockets os" "refused (close_conn c os') = refused os"
    "os_ok (close_conn c os')"
proof -
  show "sockets (close_conn c os') = sockets os"
    using listen_udp_Some(3,5) [OF assms] by (auto simp: close_conn_def intro!: fmap_ext)
  show "refused (close_conn c os') = refused os"
    using listen_udp_Some(4) [OF assms] by (simp add: close_conn_def)
  show "os_ok (close_conn c os')"
    using listen_udp_Some(1) [OF assms] by (rule close_conn_ok)
qed

section \<open>First fit\<close>

definition pair_free :: "allocator \<Rightarrow> udp_os \<Rightarrow> int \<Rightarrow> bool" where
  "pair_free a os p \<longleftrightarrow> fmlookup (reserved a) p = None \<and> bindable os p \<and> bindable os (p + 1)"

text \<open>What a successful reservation of \<open>p\<close> does to the two tables.\<close>

definition reserved_pair ::
    "int \<Rightarrow> allocator \<Rightarrow> udp_os \<Rightarrow> allocator \<Rightarrow> udp_os \<Rightarrow> bool" where
  "reserved_pair p a os a' os' \<longleftrightarrow> (\<exists>c d. c \<noteq> d
     \<and> fmlookup (sockets os) c = None \<and> fmlookup (sockets os) d = None
     \<and> a' = a\<lparr>reserved := fmupd (p + 1) d (fmupd p c (reserved a))\<rparr>
     \<and> sockets os' = fmupd d (p + 1) (fmupd c p (sockets os)) \<and> refused os' = refused os)"

definition count_reservation :: "metrics \<Rightarrow> metrics" where
  "count_reservation mt = IncAllocatorReservedPairs (IncAllocatorReservations mt)"

lemma pair_free_cong:
  "sockets os' = sockets os \<Longrightarrow> refused os' = refused os \<Longrightarrow> pair_free a os' p = pair_free a os p"
  by (simp add: pair_free_def bindable_def port_open_def)

lemma reserved_pair_cong:
  "sockets os' = sockets os \<Longrightarrow> refused os' = refused os \<Longrightarrow>
   reserved_pair p a os' a' os'' = reserved_pair p a os a' os''"
  by (simp add: reserved_pair_def)

lemma reserve_from_end: "a_end a < p \<Longrightarrow> reserve_from p a os mt = (None, a, os, mt)"
  by (subst reserve_from.simps) simp

lemma reserve_from_free:
  assumes "os_ok os" and "p \<le> a_end a" and "pair_free a os p"
  obtains a' os' where "reserve_from p a os mt = (Some p, a', os', count_reservation mt)"
    and "reserved_pair p a os a' os'" and "os_ok os'"
proof -
  obtain c os1 where c: "listen_udp p os = Some (c, os1)"
    using assms(3) listen_udp_iff [of p os] unfolding pair_free_def by blast
  note one = listen_udp_Some [OF c assms(1)]
  have "bindable os1 (p + 1)" using assms(3) one(6) by (simp add: pair_free_def)
  then obtain d os2 where d: "listen_udp (p + 1) os1 = Some (d, os2)"
    using listen_udp_iff by metis
  note two = listen_udp_Some [OF d one(1)]
  have "c \<noteq> d" "fmlookup (sockets os) d = None" using two(3) one(5) by (auto split: if_splits)
  then have "reserved_pair p a os (a\<lparr>reserved := fmupd (p + 1) d (fmupd p c (reserved a))\<rparr>) os2"
    using one(3,4,5) two(4,5) unfolding reserved_pair_def by metis
  moreover have "reserve_from p a os mt =
      (Some p, a\<lparr>reserved := fmupd (p + 1) d (fmupd p c (reserved a))\<rparr>, os2, count_reservation mt)"
    using assms(2,3) c d by (subst reserve_from.simps) (simp add: pair_free_def count_reservation_def)
  ultimately show ?thesis using that two(1) by blast
qed

lemma reserve_from_taken:
  assumes "os_ok os" and "p \<le> a_end a" and "\<not> pair_free a os p"
  obtains os' where "reserve_from p a os mt = reserve_from (p + 2) a os' mt"
    and "sockets os' = sockets os" and "refused os' = refused os" and "os_ok os'"
proof (cases "fmlookup (reserved a) p \<noteq> None \<or> \<not> bindable os p")
  case True
  with assms(2) have "reserve_from p a os mt = reserve_from (p + 2) a os mt"
    by (subst reserve_from.simps) (auto simp: listen_udp_def)
  with assms(1) show ?thesis by (intro that) auto
next
  case False
  then obtain c os1 where c: "listen_udp p os = Some (c, os1)" using listen_udp_iff by metis
  note one = listen_udp_Some [OF c assms(1)]
  have "\<not> bindable os1 (p + 1)" using False assms(3) one(6) by (auto simp: pair_free_def)
  then have "listen_udp (p + 1) os1 = None" by (simp add: listen_udp_def)
  with False assms(2) c have "reserve_from p a os mt = reserve_from (p + 2) a (close_conn c os1) mt"
    by (subst reserve_from.simps) simp
  then show ?thesis using listen_close [OF c assms(1)] by (rule that)
qed

text \<open>Whether the loop from \<open>p\<close> skips every candidate before \<open>q\<close>.\<close>

definition skips :: "int \<Rightarrow> int \<Rightarrow> allocator \<Rightarrow> udp_os \<Rightarrow> bool" where
  "skips p q a os \<longleftrightarrow> (\<forall>r. p \<le> r \<longrightarrow> r < q \<longrightarrow> even (r - p) \<longrightarrow> \<not> pair_free a os r)"

lemma skips_step:
  assumes "\<not> pair_free a os p" and "skips (p + 2) q a os"
  shows "skips p q a os"
  unfolding skips_def
proof (intro allI impI)
  fix r assume r: "p \<le> r" "r < q" "even (r - p)"
  show "\<not> pair_free a os r"
  proof (cases "r = p")
    case False
    with r have "p + 2 \<le> r" by presburger
    with r assms(2) show ?thesis by (auto simp: skips_def)
  qed (use assms in simp)
qed

definition reserve_spec ::
    "int \<Rightarrow> allocator \<Rightarrow> udp_os \<Rightarrow> metrics \<Rightarrow> int option \<Rightarrow> allocator \<Rightarrow> udp_os \<Rightarrow> metrics \<Rightarrow> bool" where
  "reserve_spec p a os mt r a' os' mt' \<longleftrightarrow> os_ok os' \<and> (case r of
       Some q \<Rightarrow> p \<le> q \<and> q \<le> a_end a \<and> even (q - p) \<and> pair_free a os q \<and> skips p q a os
         \<and> reserved_pair q a os a' os' \<and> mt' = count_reservation mt
     | None \<Rightarrow> skips p (a_end a + 1) a os \<and> a' = a \<and> mt' = mt
         \<and> sockets os' = sockets os \<and> refused os' = refused os)"

lemma reserve_from_spec:
  assumes "os_ok os"
  shows "\<exists>r a' os' mt'. reserve_from p a os mt = (r, a', os', mt')
    \<and> reserve_spec p a os mt r a' os' mt'"
  using assms
proof (induction "nat (a_end a + 1 - p)" arbitrary: p os rule: less_induct)
  case less
  show ?case
  proof (cases "a_end a < p")
    case True
    with less.prems show ?thesis by (simp add: reserve_from_end reserve_spec_def skips_def)
  next
    case in_range: False
    then have le: "p \<le> a_end a" by simp
    show ?thesis
    proof (cases "pair_free a os p")
      case True
      from reserve_from_free [OF less.prems le True, of mt] obtain a' os' where
        "reserve_from p a os mt = (Some p, a', os', count_reservation mt)"
        "reserved_pair p a os a' os'" "os_ok os'" .
      with in_range True show ?thesis by (simp add: reserve_spec_def skips_def)
    next
      case False
      from reserve_from_taken [OF less.prems le False, of mt] obtain os1 where
        step: "reserve_from p a os mt = reserve_from (p + 2) a os1 mt"
        and same: "sockets os1 = sockets os" "refused os1 = refused os" and ok: "os_ok os1" .
      from less.hyps [of "p + 2", OF _ ok] in_range obtain r a' os' mt' where
        res: "reserve_from (p + 2) a os1 mt = (r, a', os', mt')"
        and spec: "reserve_spec (p + 2) a os1 mt r a' os' mt'" by auto
      note cong = pair_free_cong [OF same] reserved_pair_cong [OF same]
      have skips: "skips (p + 2) q a os1 \<Longrightarrow> skips p q a os" for q
        using skips_step [OF False] by (simp add: skips_def cong)
      from spec skips same have "reserve_spec p a os mt r a' os' mt'"
        by (auto simp: reserve_spec_def cong split: option.splits)
      with step res show ?thesis by auto
    qed
  qed
qed

lemma ReservePair_cases:
  assumes "os_ok os"
  obtains (reserved) q a' os' where "ReservePair a os mt = (Some q, a', os', count_reservation mt)"
      "a_start a \<le> q" "q \<le> a_end a" "even (q - a_start a)" "pair_free a os q"
      "skips (a_start a) q a os" "reserved_pair q a os a' os'" "os_ok os'"
    | (exhausted) os' where "ReservePair a os mt = (None, a, os', mt)"
      "skips (a_start a) (a_end a + 1) a os" "sockets os' = sockets os" "refused os' = refused os"
      "os_ok os'"
proof -
  obtain r a' os' mt' where res: "ReservePair a os mt = (r, a', os', mt')"
    and spec: "reserve_spec (a_start a) a os mt r a' os' mt'"
    using reserve_from_spec [OF assms] unfolding ReservePair_def by blast
  show ?thesis
  proof (cases r)
    case None
    with res spec show ?thesis by (intro exhausted [of os']) (auto simp: reserve_spec_def)
  next
    case (Some q)
    with res spec show ?thesis by (intro reserved [of q a' os']) (simp_all add: reserve_spec_def)
  qed
qed

section \<open>The operations keep the invariant\<close>

lemma alloc_ok_NewAllocator [inv_intros]:
  assumes "NewAllocator s e = Some a" and "os_ok os"
  shows "alloc_ok a os"
proof -
  have a: "a = \<lparr>a_start = (if even s then s else s + 1), a_end = e, reserved = fmempty\<rparr>" and "0 < s"
    using assms(1) by (auto simp: NewAllocator_def go_rem_two_eq_0_iff Let_def split: if_splits)
  with assms(2) show ?thesis by (simp add: alloc_ok_def)
qed

lemma reserved_pair_lookup:
  assumes "reserved_pair q a os a' os'"
  obtains c d where "fmlookup (reserved a') q = Some c" and "fmlookup (reserved a') (q + 1) = Some d"
    and "fmlookup (sockets os') c = Some q" and "fmlookup (sockets os') d = Some (q + 1)"
    and "\<And>p. p \<noteq> q \<Longrightarrow> p \<noteq> q + 1 \<Longrightarrow> fmlookup (reserved a') p = fmlookup (reserved a) p"
    and "\<And>x p. fmlookup (sockets os) x = Some p \<Longrightarrow> fmlookup (sockets os') x = Some p"
    and "a_start a' = a_start a" and "a_end a' = a_end a"
proof -
  obtain c d where "c \<noteq> d" "fmlookup (sockets os) c = None" "fmlookup (sockets os) d = None"
    "a' = a\<lparr>reserved := fmupd (q + 1) d (fmupd q c (reserved a))\<rparr>"
    "sockets os' = fmupd d (q + 1) (fmupd c q (sockets os))"
    using assms by (auto simp: reserved_pair_def)
  then show ?thesis by (intro that [of c d]) auto
qed

lemma reserved_pair_ports:
  assumes "reserved_pair q a os a' os'"
  shows "port_open os' p \<longleftrightarrow> port_open os p \<or> p = q \<or> p = q + 1"
proof -
  obtain c d where cd: "c \<noteq> d" "fmlookup (sockets os) c = None" "fmlookup (sockets os) d = None"
    "sockets os' = fmupd d (q + 1) (fmupd c q (sockets os))"
    using assms by (auto simp: reserved_pair_def)
  have "fmran' (sockets os') = insert q (insert (q + 1) (fmran' (sockets os)))"
  proof (intro set_eqI iffI)
    fix p assume "p \<in> fmran' (sockets os')"
    then show "p \<in> insert q (insert (q + 1) (fmran' (sockets os)))"
      unfolding cd(4) by (auto simp: fmran'_iff split: if_splits)
  next
    fix p assume "p \<in> insert q (insert (q + 1) (fmran' (sockets os)))"
    then consider "p = q" | "p = q + 1" | x where "fmlookup (sockets os) x = Some p"
      by (auto simp: fmran'_iff)
    then show "p \<in> fmran' (sockets os')"
    proof cases
      case 1
      with cd(1) have "fmlookup (sockets os') c = Some p" by (simp add: cd(4))
      then show ?thesis by (auto simp: fmran'_iff)
    next
      case 2
      then have "fmlookup (sockets os') d = Some p" by (simp add: cd(4))
      then show ?thesis by (auto simp: fmran'_iff)
    next
      case 3
      with cd(2,3) have "fmlookup (sockets os') x = Some p" by (auto simp: cd(4))
      then show ?thesis by (auto simp: fmran'_iff)
    qed
  qed
  then show ?thesis by (auto simp: port_open_def)
qed

lemma alloc_ok_os: "alloc_ok a os \<Longrightarrow> os_ok os"
  by (simp add: alloc_ok_def)

lemma alloc_okD:
  assumes "alloc_ok a os"
  shows "fmlookup (reserved a) p = Some c \<Longrightarrow> fmlookup (sockets os) c = Some p"
    and "fmlookup (reserved a) p = Some c \<Longrightarrow> a_start a \<le> p"
    and "even p \<Longrightarrow> (fmlookup (reserved a) p = None) = (fmlookup (reserved a) (p + 1) = None)"
    and "even p \<Longrightarrow> fmlookup (reserved a) p \<noteq> None \<Longrightarrow> p \<le> a_end a"
  using assms unfolding alloc_ok_def by (blast dest: spec)+

lemma alloc_ok_cong:
  assumes "alloc_ok a os" and "os_ok os'" and "sockets os' = sockets os"
  shows "alloc_ok a os'"
  using assms(1,2) unfolding alloc_ok_def assms(3) by blast

lemma alloc_ok_reserve:
  assumes "alloc_ok a os" and "reserved_pair q a os a' os'" and "os_ok os'"
    and "even q" and "a_start a \<le> q" and "q \<le> a_end a"
  shows "alloc_ok a' os'"
proof -
  from assms(2) obtain c d where
    new: "fmlookup (reserved a') q = Some c" "fmlookup (reserved a') (q + 1) = Some d"
      "fmlookup (sockets os') c = Some q" "fmlookup (sockets os') d = Some (q + 1)"
    and old: "\<And>p. p \<noteq> q \<Longrightarrow> p \<noteq> q + 1 \<Longrightarrow> fmlookup (reserved a') p = fmlookup (reserved a) p"
      "\<And>x p. fmlookup (sockets os) x = Some p \<Longrightarrow> fmlookup (sockets os') x = Some p"
    and range: "a_start a' = a_start a" "a_end a' = a_end a"
    by (rule reserved_pair_lookup) blast
  have sock: "fmlookup (sockets os') x = Some p \<and> a_start a \<le> p \<and> p \<le> a_end a + 1"
    if "fmlookup (reserved a') p = Some x" for p x
  proof -
    consider "p = q" | "p = q + 1" | "p \<noteq> q" "p \<noteq> q + 1" by blast
    then show ?thesis
    proof cases
      case 3
      with that have "fmlookup (reserved a) p = Some x" using old(1) by simp
      with assms(1) show ?thesis using old(2) by (auto simp: alloc_ok_def)
    qed (use that new assms(5,6) in auto)
  qed
  have pairs: "(fmlookup (reserved a') p = None) = (fmlookup (reserved a') (p + 1) = None)
      \<and> (fmlookup (reserved a') p \<noteq> None \<longrightarrow> p \<le> a_end a)" if "even p" for p
  proof (cases "p = q")
    case False
    with that assms(4) have "p \<noteq> q" "p \<noteq> q + 1" "p + 1 \<noteq> q" "p + 1 \<noteq> q + 1" by auto
    moreover have "(fmlookup (reserved a) p = None) = (fmlookup (reserved a) (p + 1) = None)"
      and "fmlookup (reserved a) p \<noteq> None \<longrightarrow> p \<le> a_end a"
      using that assms(1) unfolding alloc_ok_def by blast+
    ultimately show ?thesis by (simp add: old(1))
  qed (use new assms(6) in auto)
  have "even (a_start a)" "0 < a_start a" using assms(1) by (simp_all add: alloc_ok_def)
  with assms(3) sock pairs show ?thesis unfolding alloc_ok_def range by blast
qed

lemma release_none:
  assumes "alloc_ok a os" and "even p" and "fmlookup (reserved a) p = None"
  shows "release p (a, os) = (a, os)"
  using assms by (auto simp: release_def release_port_def alloc_ok_def)

lemma release_some:
  assumes "alloc_ok a os" and "even p" and "fmlookup (reserved a) p = Some c"
  obtains d where "fmlookup (reserved a) (p + 1) = Some d"
    and "fmlookup (sockets os) c = Some p" and "fmlookup (sockets os) d = Some (p + 1)"
    and "release p (a, os) = (a\<lparr>reserved := fmdrop (p + 1) (fmdrop p (reserved a))\<rparr>,
           close_conn d (close_conn c os))"
proof -
  obtain d where d: "fmlookup (reserved a) (p + 1) = Some d"
    using assms by (auto simp: alloc_ok_def)
  moreover have "fmlookup (sockets os) c = Some p" "fmlookup (sockets os) d = Some (p + 1)"
    using assms d by (auto simp: alloc_ok_def)
  ultimately show ?thesis
    using that assms(3) by (simp add: release_def release_port_def)
qed

lemma alloc_ok_release:
  assumes "alloc_ok a os" and "even p"
  shows "case release p (a, os) of (a', os') \<Rightarrow> alloc_ok a' os'"
proof (cases "fmlookup (reserved a) p")
  case None
  with assms show ?thesis by (simp add: release_none)
next
  case (Some c)
  with assms obtain d where d: "fmlookup (sockets os) c = Some p" "fmlookup (sockets os) d = Some (p + 1)"
    and rel: "release p (a, os) = (a\<lparr>reserved := fmdrop (p + 1) (fmdrop p (reserved a))\<rparr>,
           close_conn d (close_conn c os))"
    by (rule release_some)
  let ?os = "close_conn d (close_conn c os)"
  have "os_ok ?os" using assms(1) by (simp add: alloc_ok_def close_conn_ok)
  moreover have "fmlookup (sockets ?os) x = Some q"
    if "fmlookup (reserved a) q = Some x" "q \<noteq> p" "q \<noteq> p + 1" for q x
  proof -
    have "fmlookup (sockets os) x = Some q" using assms(1) that by (simp add: alloc_ok_def)
    with d that show ?thesis by (auto simp: close_conn_def)
  qed
  moreover have "q + 1 \<noteq> p \<and> q \<noteq> p + 1" if "even q" for q using that assms(2) by auto
  ultimately show ?thesis
    using assms(1) unfolding rel alloc_ok_def by (auto split: if_splits)
qed

lemma release_reserved:
  assumes "alloc_ok a os" and "even p" and "release p (a, os) = (a', os')"
  shows "fmlookup (reserved a') q = (if q = p \<or> q = p + 1 then None else fmlookup (reserved a) q)"
    and "a_start a' = a_start a" and "a_end a' = a_end a"
    and "GetConn a p \<noteq> None \<Longrightarrow> port_open os' q \<longleftrightarrow> port_open os q \<and> q \<noteq> p \<and> q \<noteq> p + 1"
proof -
  have os: "os_ok os" using assms(1) by (simp add: alloc_ok_def)
  have "fmlookup (reserved a') q = (if q = p \<or> q = p + 1 then None else fmlookup (reserved a) q)
      \<and> a_start a' = a_start a \<and> a_end a' = a_end a
      \<and> (GetConn a p \<noteq> None \<longrightarrow> port_open os' q = (port_open os q \<and> q \<noteq> p \<and> q \<noteq> p + 1))"
  proof (cases "fmlookup (reserved a) p")
    case None
    then have "fmlookup (reserved a) (p + 1) = None" using assms(1,2) by (simp add: alloc_ok_def)
    with None assms show ?thesis by (simp add: release_none GetConn_def)
  next
    case (Some c)
    with assms(1,2) obtain d where d: "fmlookup (sockets os) c = Some p"
        "fmlookup (sockets os) d = Some (p + 1)"
      and rel: "release p (a, os) = (a\<lparr>reserved := fmdrop (p + 1) (fmdrop p (reserved a))\<rparr>,
           close_conn d (close_conn c os))"
      by (rule release_some)
    have "fmlookup (sockets (close_conn c os)) d = Some (p + 1)"
      using d by (auto simp: close_conn_def)
    then have "port_open (close_conn d (close_conn c os)) q = (port_open os q \<and> q \<noteq> p \<and> q \<noteq> p + 1)"
      using port_open_close_conn [OF close_conn_ok [OF os]] port_open_close_conn [OF os d(1)] by simp
    with rel assms(3) show ?thesis by auto
  qed
  then show "fmlookup (reserved a') q = (if q = p \<or> q = p + 1 then None else fmlookup (reserved a) q)"
    and "a_start a' = a_start a" and "a_end a' = a_end a"
    and "GetConn a p \<noteq> None \<Longrightarrow> port_open os' q \<longleftrightarrow> port_open os q \<and> q \<noteq> p \<and> q \<noteq> p + 1"
    by simp_all
qed

text \<open>A release right after its reservation restores both tables.\<close>

lemma release_reserved_pair:
  assumes "alloc_ok a os" and "reserved_pair p a os a1 os1" and "os_ok os1"
    and "even p" and "pair_free a os p"
  obtains os2 where "release p (a1, os1) = (a, os2)" and "sockets os2 = sockets os"
    and "refused os2 = refused os" and "os_ok os2"
proof -
  obtain c d where cd: "c \<noteq> d" "fmlookup (sockets os) c = None" "fmlookup (sockets os) d = None"
    "a1 = a\<lparr>reserved := fmupd (p + 1) d (fmupd p c (reserved a))\<rparr>"
    "sockets os1 = fmupd d (p + 1) (fmupd c p (sockets os))" "refused os1 = refused os"
    using assms(2) by (auto simp: reserved_pair_def)
  have p: "fmlookup (reserved a) p = None" using assms(5) by (simp add: pair_free_def)
  then have p1: "fmlookup (reserved a) (p + 1) = None"
    using assms(1,4) unfolding alloc_ok_def by blast
  have "fmdrop (p + 1) (fmdrop p (reserved a1)) = reserved a"
    using p p1 by (intro fmap_ext) (auto simp: cd(4))
  then have "release p (a1, os1) = (a, close_conn d (close_conn c os1))"
    by (simp add: release_def release_port_def cd(4))
  moreover have "sockets (close_conn d (close_conn c os1)) = sockets os"
    using cd(1-3) by (intro fmap_ext) (auto simp: close_conn_def cd(5))
  moreover have "refused (close_conn d (close_conn c os1)) = refused os"
    by (simp add: close_conn_def cd(6))
  moreover have "os_ok (close_conn d (close_conn c os1))" using assms(3) by (intro close_conn_ok)
  ultimately show ?thesis by (rule that)
qed

lemma ReservePair_ok:
  assumes "alloc_ok a os" and "ReservePair a os mt = (r, a', os', mt')"
  shows "alloc_ok a' os'"
  using alloc_ok_os [OF assms(1)]
proof (cases rule: ReservePair_cases [of os a mt])
  case (reserved q a1 os1)
  moreover have "even q" using assms(1) reserved(4) by (simp add: alloc_ok_def)
  ultimately show ?thesis using alloc_ok_reserve [OF assms(1)] assms(2) by auto
next
  case (exhausted os1)
  then show ?thesis using assms alloc_ok_cong [OF assms(1)] by auto
qed

lemma ReservePair_Some:
  assumes "alloc_ok a os" and "ReservePair a os mt = (Some p, a', os', mt')"
  shows "even p" "reserved_pair p a os a' os'" "pair_free a os p" "GetConn a' p \<noteq> None"
    "port_open os' p" "port_open os' (p + 1)"
proof -
  have "reserved_pair p a os a' os' \<and> pair_free a os p \<and> even p"
    using alloc_ok_os [OF assms(1)]
  proof (cases rule: ReservePair_cases [of os a mt])
    case (reserved q a1 os1)
    moreover have "even q" using assms(1) reserved(4) by (simp add: alloc_ok_def)
    ultimately show ?thesis using assms(2) by auto
  qed (use assms(2) in simp)
  then show "even p" "reserved_pair p a os a' os'" "pair_free a os p" by simp_all
  then show "GetConn a' p \<noteq> None" "port_open os' p" "port_open os' (p + 1)"
    by (auto simp: GetConn_def reserved_pair_ports elim: reserved_pair_lookup)
qed

section \<open>The contract of a pair allocator\<close>

text \<open>
  What the start-up code relies on: a reservation is an even port that was not held, and
  a release gives back that port and no other.
\<close>

locale pair_allocator =
  fixes inv :: "'s \<Rightarrow> bool"
    and reserve :: "'s \<Rightarrow> int option \<times> 's"
    and give_back :: "int \<Rightarrow> 's \<Rightarrow> 's"
    and held :: "'s \<Rightarrow> int set"
  assumes reserve_inv: "inv s \<Longrightarrow> inv (snd (reserve s))"
    and reserve_Some:
      "inv s \<Longrightarrow> reserve s = (Some p, s') \<Longrightarrow> even p \<and> p \<notin> held s \<and> held s' = insert p (held s)"
    and reserve_None: "inv s \<Longrightarrow> reserve s = (None, s') \<Longrightarrow> held s' = held s"
    and release_inv: "inv s \<Longrightarrow> even p \<Longrightarrow> inv (give_back p s)"
    and release_held: "inv s \<Longrightarrow> even p \<Longrightarrow> held (give_back p s) = held s - {p}"
begin

lemma two_reservations:
  assumes "inv s" and "reserve s = (Some p, s1)" and "reserve s1 = (Some q, s2)"
  shows "even p" and "even q" and "{p, p + 1} \<inter> {q, q + 1} = {}"
    and "held s2 = insert q (insert p (held s))" and "inv s2"
proof -
  have "inv s1" using reserve_inv [OF assms(1)] assms(2) by simp
  note two = reserve_Some [OF this assms(3)]
  note one = reserve_Some [OF assms(1,2)]
  show "even p" "even q" using one two by simp_all
  moreover have "p \<noteq> q" using one two by auto
  ultimately show "{p, p + 1} \<inter> {q, q + 1} = {}" by auto
  show "held s2 = insert q (insert p (held s))" using one two by simp
  show "inv s2" using reserve_inv [OF \<open>inv s1\<close>] assms(3) by simp
qed

lemma reserve_release:
  assumes "inv s" and "reserve s = (Some p, s1)"
  shows "held (give_back p s1) = held s" and "inv (give_back p s1)"
proof -
  note one = reserve_Some [OF assms]
  have "inv s1" using reserve_inv [OF assms(1)] assms(2) by simp
  with one show "held (give_back p s1) = held s" "inv (give_back p s1)"
    by (simp_all add: release_held release_inv)
qed

end

type_synonym alloc_state = "allocator \<times> udp_os \<times> metrics"

definition reserve_op :: "alloc_state \<Rightarrow> int option \<times> alloc_state" where
  "reserve_op = (\<lambda>(a, os, mt). case ReservePair a os mt of (r, s) \<Rightarrow> (r, s))"

definition release_op :: "int \<Rightarrow> alloc_state \<Rightarrow> alloc_state" where
  "release_op p = (\<lambda>(a, os, mt). case release p (a, os) of (a', os') \<Rightarrow> (a', os', mt))"

definition held_pairs :: "alloc_state \<Rightarrow> int set" where
  "held_pairs = (\<lambda>(a, _, _). {p. even p \<and> GetConn a p \<noteq> None})"

definition alloc_inv :: "alloc_state \<Rightarrow> bool" where
  "alloc_inv = (\<lambda>(a, os, _). alloc_ok a os)"

lemma even_start: "alloc_ok a os \<Longrightarrow> even (q - a_start a) \<Longrightarrow> even q"
  by (simp add: alloc_ok_def)

lemma reserve_op_spec:
  assumes "alloc_inv s" and "reserve_op s = (r, s')"
  shows "alloc_inv s'" and "r = Some p \<Longrightarrow> even p \<and> p \<notin> held_pairs s \<and> held_pairs s' = insert p (held_pairs s)"
    and "r = None \<Longrightarrow> held_pairs s' = held_pairs s"
proof -
  obtain a os mt where s: "s = (a, os, mt)" by (cases s)
  with assms(1) have ok: "alloc_ok a os" and os: "os_ok os" by (simp_all add: alloc_inv_def alloc_ok_os)
  from os have "alloc_inv s' \<and> (r = Some p \<longrightarrow> even p \<and> p \<notin> held_pairs s
      \<and> held_pairs s' = insert p (held_pairs s)) \<and> (r = None \<longrightarrow> held_pairs s' = held_pairs s)"
  proof (cases rule: ReservePair_cases [of os a mt])
    case (reserved q a' os')
    have even: "even q" using ok reserved(4) by (rule even_start)
    have "alloc_ok a' os'" using alloc_ok_reserve ok reserved even by blast
    moreover have "GetConn a q = None" using reserved(5) by (simp add: pair_free_def GetConn_def)
    moreover have "GetConn a' p \<noteq> None \<longleftrightarrow> p = q \<or> GetConn a p \<noteq> None" if "even p" for p
      using reserved(7) even that unfolding reserved_pair_def
      by (auto simp: GetConn_def split: if_splits)
    ultimately show ?thesis
      using reserved(1) assms(2) even s by (auto simp: reserve_op_def held_pairs_def alloc_inv_def)
  next
    case (exhausted os')
    with ok have "alloc_ok a os'" using alloc_ok_cong by blast
    with exhausted(1) assms(2) s show ?thesis
      by (auto simp: reserve_op_def held_pairs_def alloc_inv_def)
  qed
  then show "alloc_inv s'" and "r = Some p \<Longrightarrow> even p \<and> p \<notin> held_pairs s \<and> held_pairs s' = insert p (held_pairs s)"
    and "r = None \<Longrightarrow> held_pairs s' = held_pairs s"
    by simp_all
qed

interpretation pairs: pair_allocator alloc_inv reserve_op release_op held_pairs
proof (unfold_locales, goal_cases)
  case (1 s)
  then show ?case using reserve_op_spec(1) [of s] by (cases "reserve_op s") auto
next
  case (2 s p s')
  then show ?case using reserve_op_spec(2) by blast
next
  case (3 s s')
  then show ?case using reserve_op_spec(3) by blast
next
  case (4 s p)
  then show ?case
    using alloc_ok_release [of "fst s" "fst (snd s)" p]
    by (auto simp: alloc_inv_def release_op_def split: prod.splits)
next
  case (5 s p)
  obtain a os mt where s: "s = (a, os, mt)" by (cases s)
  obtain a' os' where rel: "release p (a, os) = (a', os')" by fastforce
  from 5 s have "alloc_ok a os" by (simp add: alloc_inv_def)
  with s rel release_reserved(1) [OF _ 5(2) rel] 5(2) show ?case
    by (auto simp: held_pairs_def release_op_def GetConn_def)
qed

end
