(* ===== verification/AllocTheorems.thy ===== *)
theory AllocTheorems
  imports UdpAlloc
begin

text \<open>
  The properties of the UDP port allocator: which pair a reservation takes, what holds
  after any sequence of reservations and releases, and what a release gives back.
\<close>

text \<open>C18: A reservation is first-fit and binds what it returns: it takes the lowest even
  port of the range that is not reserved and whose RTP and RTCP ports can both be bound,
  both are open afterwards, and every other port is as before.  It fails exactly when
  there is no such pair, and then no reservation and no open port changes, although it
  has opened and closed sockets on the way.\<close>

theorem ReservePair_first_fit:
  assumes "alloc_ok a os"
  shows "\<exists>r a' os' mt'. ReservePair a os mt = (r, a', os', mt')
    \<and> (case r of
         Some p \<Rightarrow> even p \<and> a_start a \<le> p \<and> p \<le> a_end a \<and> pair_free a os p
           \<and> (\<forall>q. even q \<longrightarrow> a_start a \<le> q \<longrightarrow> q < p \<longrightarrow> \<not> pair_free a os q)
           \<and> GetConn a' p \<noteq> None \<and> GetConn a' (p + 1) \<noteq> None
           \<and> (\<forall>q. q \<noteq> p \<longrightarrow> q \<noteq> p + 1 \<longrightarrow> GetConn a' q = GetConn a q)
           \<and> (\<forall>q. port_open os' q \<longleftrightarrow> port_open os q \<or> q = p \<or> q = p + 1)
       | None \<Rightarrow> (\<forall>q. even q \<longrightarrow> a_start a \<le> q \<longrightarrow> q \<le> a_end a \<longrightarrow> \<not> pair_free a os q)
           \<and> a' = a \<and> mt' = mt \<and> (\<forall>q. port_open os' q \<longleftrightarrow> port_open os q))"
proof -
  have start: "even (a_start a)" using assms by (simp add: alloc_ok_def)
  from alloc_ok_os [OF assms] show ?thesis
  proof (cases rule: ReservePair_cases [of os a mt])
    case (reserved p a' os')
    moreover from reserved(7) have "GetConn a' p \<noteq> None" "GetConn a' (p + 1) \<noteq> None"
      "\<forall>q. q \<noteq> p \<longrightarrow> q \<noteq> p + 1 \<longrightarrow> GetConn a' q = GetConn a q"
      by (auto simp: GetConn_def elim: reserved_pair_lookup)
    ultimately show ?thesis
      by (simp add: start skips_def reserved_pair_ports [OF reserved(7)])
  next
    case (exhausted os')
    then show ?thesis by (simp add: start skips_def port_open_def)
  qed
qed

text \<open>A machine on which another process holds port 5000.\<close>

definition demo_os :: udp_os where
  "demo_os = \<lparr>sockets = fmempty, refused = {5000}, next_conn = 0\<rparr>"

definition demo_allocator :: allocator where
  "demo_allocator = \<lparr>a_start = 5000, a_end = 5003, reserved = fmempty\<rparr>"

lemma demo_alloc_ok: "alloc_ok demo_allocator demo_os"
  by (simp add: alloc_ok_def os_ok_def demo_allocator_def demo_os_def)

lemma demo_new: "NewAllocator 4999 5003 = Some demo_allocator"
  by (simp add: NewAllocator_def demo_allocator_def go_rem_def go_quot_def)

lemmas alloc_eval = ReservePair_def reserve_from.simps listen_udp_def bindable_def port_open_def
  fmran'_iff demo_allocator_def demo_os_def close_conn_def GetConn_def release_def
  release_port_def

theorem ReservePair_first_fit_witness:
  "\<exists>a' os' mt'. ReservePair demo_allocator demo_os metrics_init = (Some 5002, a', os', mt')
     \<and> port_open os' 5003 \<and> \<not> pair_free demo_allocator demo_os 5000"
proof -
  have "fst (ReservePair demo_allocator demo_os metrics_init) = Some 5002"
    by (simp add: alloc_eval)
  with ReservePair_first_fit [OF demo_alloc_ok, of metrics_init] show ?thesis
    by (auto simp: demo_allocator_def)
qed

section \<open>Sequences of reservations and releases\<close>

datatype alloc_event = Reserves | Releases int

fun run_alloc :: "alloc_event list \<Rightarrow> alloc_state \<Rightarrow> alloc_state" where
  "run_alloc [] s = s"
| "run_alloc (Reserves # es) s = run_alloc es (snd (reserve_op s))"
| "run_alloc (Releases p # es) s = run_alloc es (release_op p s)"

lemma reserve_op_frame:
  assumes "alloc_inv s"
  shows "a_start (fst (snd (reserve_op s))) = a_start (fst s)
    \<and> a_end (fst (snd (reserve_op s))) = a_end (fst s)"
proof -
  obtain a os mt where s: "s = (a, os, mt)" by (cases s)
  with assms have "os_ok os" by (simp add: alloc_inv_def alloc_ok_os)
  then show ?thesis
    by (cases rule: ReservePair_cases [of os a mt])
       (auto simp: s reserve_op_def reserved_pair_def)
qed

lemma release_op_frame:
  "a_start (fst (release_op p s)) = a_start (fst s) \<and> a_end (fst (release_op p s)) = a_end (fst s)"
  by (auto simp: release_op_def release_def release_port_def split: prod.splits option.splits)

lemma run_alloc_inv:
  "alloc_inv s \<Longrightarrow> \<forall>p. Releases p \<in> set es \<longrightarrow> even p \<Longrightarrow> alloc_inv (run_alloc es s)
    \<and> a_start (fst (run_alloc es s)) = a_start (fst s) \<and> a_end (fst (run_alloc es s)) = a_end (fst s)"
  by (induction es s rule: run_alloc.induct)
     (auto simp: pairs.reserve_inv pairs.release_inv reserve_op_frame release_op_frame)



text \<open>C20: A release undoes its reservation: the reserved ports and the open ports are again
  those before the reservation, and the next reservation returns the same pair.\<close>

theorem release_undoes_reserve:
  assumes "alloc_ok a os" and "ReservePair a os mt = (Some p, a1, os1, mt1)"
    and "release p (a1, os1) = (a2, os2)"
  shows "reserved a2 = reserved a \<and> (\<forall>q. port_open os2 q \<longleftrightarrow> port_open os q)
    \<and> fst (ReservePair a2 os2 mt1) = Some p"
proof -
  have start: "even (a_start a)" using assms(1) by (simp add: alloc_ok_def)
  from alloc_ok_os [OF assms(1)] show ?thesis
  proof (cases rule: ReservePair_cases [of os a mt])
    case (reserved q a' os')
    with assms(2) have eq: "q = p" "a' = a1" "os' = os1" by simp_all
    have even: "even p" using reserved(4) start by (simp add: eq)
    obtain os3 where rel: "release p (a1, os1) = (a, os3)"
      and same: "sockets os3 = sockets os" "refused os3 = refused os" and ok: "os_ok os3"
      using release_reserved_pair [OF assms(1) _ _ even] reserved(5,7,8) unfolding eq by metis
    have "fst (ReservePair a os3 mt1) = Some p"
      using ok
    proof (cases rule: ReservePair_cases [of os3 a mt1])
      case again: (reserved r a'' os'')
      have "r = p"
        using again(2,3,4,5,6) reserved(2,3,4,5,6) pair_free_cong [OF same]
        unfolding skips_def eq by (metis linorder_neqE)
      with again(1) show ?thesis by simp
    next
      case exhausted
      with reserved(2,3,4,5) show ?thesis by (simp add: skips_def eq pair_free_cong [OF same])
    qed
    with rel assms(3) same show ?thesis by (simp add: port_open_def)
  next
    case exhausted
    with assms(2) show ?thesis by simp
  qed
qed

theorem release_undoes_reserve_witness:
  "\<exists>a1 os1 mt1 a2 os2. ReservePair demo_allocator demo_os metrics_init = (Some 5002, a1, os1, mt1)
     \<and> release 5002 (a1, os1) = (a2, os2) \<and> reserved a2 = fmempty \<and> \<not> port_open os2 5002"
proof -
  obtain a1 os1 mt1 where res: "ReservePair demo_allocator demo_os metrics_init = (Some 5002, a1, os1, mt1)"
    by (simp add: alloc_eval)
  obtain a2 os2 where rel: "release 5002 (a1, os1) = (a2, os2)" by fastforce
  have "\<not> port_open demo_os 5002" by (simp add: alloc_eval)
  with release_undoes_reserve [OF demo_alloc_ok res rel] res rel show ?thesis
    by (simp add: demo_allocator_def)
qed

text \<open>The release function is not tied to its reservation: called a second time, after
  the pair has been reserved by someone else, it closes the sockets of the new holder and
  frees its ports.\<close>

theorem second_release_frees_another_holder:
  assumes "alloc_ok a os" and "ReservePair a os mt = (Some p, a1, os1, mt1)"
    and "release p (a1, os1) = (a2, os2)"
    and "ReservePair a2 os2 mt1 = (Some p, a3, os3, mt3)"
    and "release p (a3, os3) = (a4, os4)"
  shows "GetConn a3 p \<noteq> None \<and> port_open os3 p \<and> port_open os3 (p + 1)
    \<and> GetConn a4 p = None \<and> \<not> port_open os4 p \<and> \<not> port_open os4 (p + 1)"
proof -
  note one = ReservePair_Some [OF assms(1,2)]
  have ok1: "alloc_ok a1 os1" using assms(1,2) by (rule ReservePair_ok)
  have ok2: "alloc_ok a2 os2" using alloc_ok_release [OF ok1 one(1)] assms(3) by simp
  note two = ReservePair_Some [OF ok2 assms(4)]
  have ok3: "alloc_ok a3 os3" using ok2 assms(4) by (rule ReservePair_ok)
  from release_reserved(1) [OF ok3 two(1) assms(5)] release_reserved(4) [OF ok3 two(1) assms(5) two(4)] two
  show ?thesis by (simp add: GetConn_def)
qed

theorem second_release_frees_another_holder_witness:
  "\<exists>a1 os1 mt1 a2 os2 a3 os3 mt3 a4 os4.
     ReservePair demo_allocator demo_os metrics_init = (Some 5002, a1, os1, mt1)
     \<and> release 5002 (a1, os1) = (a2, os2) \<and> ReservePair a2 os2 mt1 = (Some 5002, a3, os3, mt3)
     \<and> port_open os3 5002 \<and> release 5002 (a3, os3) = (a4, os4) \<and> \<not> port_open os4 5002"
proof -
  obtain a1 os1 mt1 a2 os2 a3 os3 mt3 where
    res: "ReservePair demo_allocator demo_os metrics_init = (Some 5002, a1, os1, mt1)"
    and rel: "release 5002 (a1, os1) = (a2, os2)"
    and again: "ReservePair a2 os2 mt1 = (Some 5002, a3, os3, mt3)"
    by (simp add: alloc_eval)
  obtain a4 os4 where "release 5002 (a3, os3) = (a4, os4)" by fastforce
  with second_release_frees_another_holder [OF demo_alloc_ok res rel again] res rel again
  show ?thesis by blast
qed

section \<open>Checking the configured ports\<close>

lemma close_all_sockets:
  "sockets (close_all cs os) = fmfilter (\<lambda>c. c \<notin> set cs) (sockets os)"
  by (induction cs arbitrary: os) (auto simp: close_conn_def intro!: fmap_ext)

lemma bind_all_result:
  "os_ok os \<Longrightarrow> fst (bind_all ps conns os) = None \<longleftrightarrow> distinct ps \<and> (\<forall>p \<in> set ps. bindable os p)"
proof (induction ps arbitrary: conns os)
  case (Cons p ps)
  show ?case
  proof (cases "listen_udp p os")
    case None
    then show ?thesis by (auto simp: listen_udp_def split: if_splits)
  next
    case (Some r)
    then obtain c os' where r: "listen_udp p os = Some (c, os')" by (cases r) auto
    note new = listen_udp_Some [OF r Cons.prems]
    from r new(2,6) Cons.IH [OF new(1)] show ?thesis by auto
  qed
qed simp

lemma bind_all_sockets:
  "os_ok os \<Longrightarrow> sockets (snd (bind_all ps conns os)) = fmfilter (\<lambda>c. c \<notin> set conns) (sockets os)"
proof (induction ps arbitrary: conns os)
  case Nil
  then show ?case by (simp add: close_all_sockets)
next
  case (Cons p ps)
  show ?case
  proof (cases "listen_udp p os")
    case None
    then show ?thesis by (simp add: close_all_sockets)
  next
    case (Some r)
    then obtain c os' where r: "listen_udp p os = Some (c, os')" by (cases r) auto
    note new = listen_udp_Some [OF r Cons.prems]
    have "fmfilter (\<lambda>x. x \<notin> set (conns @ [c])) (sockets os') = fmfilter (\<lambda>x. x \<notin> set conns) (sockets os)"
      using new(3) unfolding new(5) by (intro fmap_ext) auto
    with r Cons.IH [OF new(1)] show ?thesis by simp
  qed
qed

text \<open>The check of the configured UDP ports passes exactly when both bases are even and
  not zero, differ, and their four ports can be bound; whatever it answers, it leaves no
  socket open that was not open before.\<close>

theorem validateUDPConfig_exact:
  assumes "os_ok os"
  shows "(fst (validateUDPConfig p q os) = None \<longleftrightarrow>
        p \<noteq> 0 \<and> even p \<and> q \<noteq> 0 \<and> even q \<and> p \<noteq> q
        \<and> (\<forall>r \<in> {p, p + 1, q, q + 1}. bindable os r))
    \<and> sockets (snd (validateUDPConfig p q os)) = sockets os"
proof -
  have "even p \<Longrightarrow> even q \<Longrightarrow> distinct [p, p + 1, q, q + 1] \<longleftrightarrow> p \<noteq> q" by auto
  moreover have "fmfilter (\<lambda>c. c \<notin> set []) (sockets os) = sockets os" by (intro fmap_ext) simp
  ultimately show ?thesis
    using bind_all_result [OF assms, of "[p, p + 1, q, q + 1]" "[]"]
      bind_all_sockets [OF assms, of "[p, p + 1, q, q + 1]" "[]"]
    by (auto simp: validateUDPConfig_def go_rem_two_eq_0_iff)
qed

theorem validateUDPConfig_exact_witness:
  "fst (validateUDPConfig 5000 6000 demo_os) \<noteq> None \<and> fst (validateUDPConfig 5002 6000 demo_os) = None"
proof -
  have "os_ok demo_os" using demo_alloc_ok by (rule alloc_ok_os)
  from validateUDPConfig_exact [OF this, of 5000 6000] validateUDPConfig_exact [OF this, of 5002 6000]
  show ?thesis by (auto simp: alloc_eval)
qed

end
