(* ===== verification/GoNet.thy ===== *)
theory GoNet
  imports GoStrings
begin

text \<open>
  The functions of Go's \<open>net\<close> and \<open>net/url\<close> packages the program calls on strings:
  \<open>net.SplitHostPort\<close>, and the path that \<open>url.Parse\<close> finds in an \<open>rtsp\<close> URL.
\<close>

section \<open>Positions of bytes\<close>

fun IndexByte :: "char \<Rightarrow> string \<Rightarrow> nat option" where
  "IndexByte c [] = None"
| "IndexByte c (x # xs) = (if x = c then Some 0 else map_option Suc (IndexByte c xs))"

definition LastIndexByte :: "char \<Rightarrow> string \<Rightarrow> nat option" where
  "LastIndexByte c s = map_option (\<lambda>i. length s - 1 - i) (IndexByte c (rev s))"

lemma IndexByte_append: "c \<notin> set p \<Longrightarrow> IndexByte c (p @ c # s) = Some (length p)"
  by (induction p) auto

lemma IndexByte_None [simp]: "IndexByte c s = None \<longleftrightarrow> c \<notin> set s"
  by (induction s) auto

lemma LastIndexByte_append: "c \<notin> set s \<Longrightarrow> LastIndexByte c (p @ c # s) = Some (length p)"
  using IndexByte_append [of c "rev s" "rev p"] by (simp add: LastIndexByte_def)

section \<open>SplitHostPort\<close>

definition split_at ::
    "string \<Rightarrow> string \<Rightarrow> nat \<Rightarrow> nat \<Rightarrow> nat \<Rightarrow> (string \<times> string) option" where
  "split_at hostport host i j k =
     (if CHR ''['' \<in> set (drop j hostport) \<or> CHR '']'' \<in> set (drop k hostport) then None
      else Some (host, drop (Suc i) hostport))"

definition SplitHostPort :: "string \<Rightarrow> (string \<times> string) option" where
  "SplitHostPort hostport = (case LastIndexByte (CHR '':'') hostport of
       None \<Rightarrow> None
     | Some i \<Rightarrow>
         if hd hostport = CHR ''[''
         then (case IndexByte (CHR '']'') hostport of
             None \<Rightarrow> None
           | Some e \<Rightarrow> if Suc e = i then split_at hostport (drop 1 (take e hostport)) i 1 (Suc e)
               else None)
         else if CHR '':'' \<in> set (take i hostport) then None
         else split_at hostport (take i hostport) i 0 0)"

text \<open>A port with or without a plain host name in front.\<close>

lemma SplitHostPort_plain:
  assumes "set host \<inter> {CHR '':'', CHR ''['', CHR '']''} = {}"
    and "set port \<inter> {CHR '':'', CHR ''['', CHR '']''} = {}"
  shows "SplitHostPort (host @ CHR '':'' # port) = Some (host, port)"
proof -
  have "hd (host @ CHR '':'' # port) \<noteq> CHR ''[''" using assms(1) by (cases host) auto
  moreover have "LastIndexByte (CHR '':'') (host @ CHR '':'' # port) = Some (length host)"
    using assms(2) by (intro LastIndexByte_append) auto
  ultimately show ?thesis
    using assms by (auto simp: SplitHostPort_def split_at_def)
qed

lemma show_int_plain: "set (show_int n) \<inter> {CHR '':'', CHR ''['', CHR '']''} = {}"
proof -
  have digits: "digit_char d \<notin> {CHR '':'', CHR ''['', CHR '']''}" if "d < 10" for d
  proof -
    have "of_char (digit_char d) = (48 + d :: nat)" using that by (simp add: digit_char_def)
    then show ?thesis using that by auto
  qed
  have "set (radix_str 10 k) \<inter> {CHR '':'', CHR ''['', CHR '']''} = {}" for k
    using radix_str_chars [of 10 k] digits by fastforce
  then show ?thesis by (auto simp: show_int_def)
qed

section \<open>The path of a URL\<close>

text \<open>
  \<open>url.Parse\<close> as far as the program uses it: for a URL that starts with \<open>rtsp://\<close>,
  the path, or an error.  The check of a host in brackets (an IP literal, parsed by
  \<open>net/netip\<close>) is the argument \<open>ip_literal\<close>.
\<close>

definition byte_of :: "char \<Rightarrow> nat" where
  "byte_of c = of_char c"

definition is_alnum :: "char \<Rightarrow> bool" where
  "is_alnum c \<longleftrightarrow> (let k = byte_of c in
     (97 \<le> k \<and> k \<le> 122) \<or> (65 \<le> k \<and> k \<le> 90) \<or> (48 \<le> k \<and> k \<le> 57))"

definition is_ctl :: "char \<Rightarrow> bool" where
  "is_ctl c \<longleftrightarrow> byte_of c < 32 \<or> byte_of c = 127"

definition unhex :: "char \<Rightarrow> nat option" where
  "unhex c = (let k = byte_of c in
     if 48 \<le> k \<and> k \<le> 57 then Some (k - 48)
     else if 97 \<le> k \<and> k \<le> 102 then Some (k - 87)
     else if 65 \<le> k \<and> k \<le> 70 then Some (k - 55) else None)"

text \<open>The bytes below 128 that may stand unescaped in a host.\<close>

definition host_char :: "char \<Rightarrow> bool" where
  "host_char c \<longleftrightarrow> is_alnum c \<or> c \<in> set ''!$&()*+,;=:[]<>-_.~'' \<or> byte_of c = 34 \<or> byte_of c = 39"

text \<open>\<open>unescape\<close> for a host, and for a path, a fragment or a part of the user information.\<close>

fun unescape :: "bool \<Rightarrow> string \<Rightarrow> string option" where
  "unescape host [] = Some []"
| "unescape host (c # s) =
     (if c = CHR ''%''
      then (case s of
          a # b # rest \<Rightarrow> (case (unhex a, unhex b) of
              (Some x, Some y) \<Rightarrow>
                if host \<and> x < 8 \<and> \<not> (a = CHR ''2'' \<and> b = CHR ''5'') then None
                else map_option ((#) (char_of (16 * x + y))) (unescape host rest)
            | _ \<Rightarrow> None)
        | _ \<Rightarrow> None)
      else if host \<and> byte_of c < 128 \<and> \<not> host_char c then None
      else map_option ((#) c) (unescape host s))"

definition before_byte :: "char \<Rightarrow> string \<Rightarrow> string" where
  "before_byte c s = takeWhile (\<lambda>x. x \<noteq> c) s"

definition after_byte :: "char \<Rightarrow> string \<Rightarrow> string" where
  "after_byte c s = tl (dropWhile (\<lambda>x. x \<noteq> c) s)"

definition parse_host :: "(string \<Rightarrow> bool) \<Rightarrow> string \<Rightarrow> bool" where
  "parse_host ip_literal host =
     (case host of
        c # _ \<Rightarrow> if c = CHR ''['' then ip_literal host
          else (case LastIndexByte (CHR '':'') host of
              Some i \<Rightarrow> list_all (\<lambda>x. 48 \<le> byte_of x \<and> byte_of x \<le> 57) (drop (Suc i) host)
                \<and> unescape True host \<noteq> None
            | None \<Rightarrow> unescape True host \<noteq> None)
      | [] \<Rightarrow> True)"

definition userinfo_char :: "char \<Rightarrow> bool" where
  "userinfo_char c \<longleftrightarrow> is_alnum c \<or> c \<in> set ''-._:~!$&()*+,;=%@'' \<or> byte_of c = 39"

definition parse_authority :: "(string \<Rightarrow> bool) \<Rightarrow> string \<Rightarrow> bool" where
  "parse_authority ip_literal authority =
     (case LastIndexByte (CHR ''@'') authority of
        None \<Rightarrow> parse_host ip_literal authority
      | Some i \<Rightarrow> parse_host ip_literal (drop (Suc i) authority)
          \<and> (let userinfo = take i authority in list_all userinfo_char userinfo
               \<and> unescape False (before_byte (CHR '':'') userinfo) \<noteq> None
               \<and> unescape False (after_byte (CHR '':'') userinfo) \<noteq> None))"

definition url_path :: "(string \<Rightarrow> bool) \<Rightarrow> string \<Rightarrow> string option" where
  "url_path ip_literal raw =
     (let u = before_byte (CHR ''#'') raw;
          frag = after_byte (CHR ''#'') raw;
          rest = before_byte (CHR ''?'') (drop (length ''rtsp://'') u);
          authority = before_byte (CHR ''/'') rest;
          path = dropWhile (\<lambda>c. c \<noteq> CHR ''/'') rest
      in if list_ex is_ctl u \<or> \<not> parse_authority ip_literal authority \<or> unescape False frag = None
         then None else unescape False path)"

lemma unescape_plain:
  "CHR ''%'' \<notin> set s \<Longrightarrow> (host \<Longrightarrow> list_all host_char s) \<Longrightarrow> unescape host s = Some s"
  by (induction s) auto

lemma before_byte_none: "c \<notin> set s \<Longrightarrow> before_byte c s = s"
  by (auto simp: before_byte_def takeWhile_eq_all_conv)

lemma before_byte_append: "c \<notin> set s \<Longrightarrow> before_byte c (s @ c # t) = s"
  by (induction s) (auto simp: before_byte_def)

lemma after_byte_none: "c \<notin> set s \<Longrightarrow> after_byte c s = []"
  by (induction s) (auto simp: after_byte_def)

text \<open>A host name, a port and a path without special bytes.\<close>

definition plain :: "string \<Rightarrow> bool" where
  "plain s \<longleftrightarrow> list_all (\<lambda>c. is_alnum c \<or> c \<in> set ''-_.'') s"

lemma plain_chars:
  assumes "plain s"
  shows "set s \<inter> set ''#?/%@:[ '' = {}" "list_all host_char s" "\<not> list_ex is_ctl s"
proof -
  have "c \<notin> set ''#?/%@:[ '' \<and> host_char c \<and> \<not> is_ctl c" if "is_alnum c \<or> c \<in> set ''-_.''" for c
    using that by (auto simp: is_alnum_def host_char_def is_ctl_def byte_of_def Let_def)
  with assms show "set s \<inter> set ''#?/%@:[ '' = {}" "list_all host_char s" "\<not> list_ex is_ctl s"
    unfolding plain_def list_all_iff list_ex_iff by blast+
qed

lemma url_path_plain:
  assumes "plain host" and "list_all (\<lambda>c. 48 \<le> byte_of c \<and> byte_of c \<le> 57) port" and "plain topic"
  shows "url_path ip (''rtsp://'' @ host @ CHR '':'' # port @ CHR ''/'' # topic) = Some (CHR ''/'' # topic)"
proof -
  have "plain port"
    using assms(2) by (auto simp: plain_def list_all_iff is_alnum_def Let_def)
  note h = plain_chars [OF assms(1)] and p = plain_chars [OF this] and t = plain_chars [OF assms(3)]
  define u where "u = ''rtsp://'' @ host @ CHR '':'' # port @ CHR ''/'' # topic"
  have hash: "CHR ''#'' \<notin> set u" using h(1) p(1) t(1) by (auto simp: u_def)
  have rest: "before_byte (CHR ''?'') (drop (length ''rtsp://'') u) = (host @ CHR '':'' # port) @ CHR ''/'' # topic"
    using h(1) p(1) t(1) by (subst before_byte_none) (auto simp: u_def)
  have auth: "before_byte (CHR ''/'') ((host @ CHR '':'' # port) @ CHR ''/'' # topic) = host @ CHR '':'' # port"
    using h(1) p(1) by (intro before_byte_append) auto
  have path: "dropWhile (\<lambda>c. c \<noteq> CHR ''/'') ((host @ CHR '':'' # port) @ CHR ''/'' # topic) = CHR ''/'' # topic"
    using h(1) p(1) by (subst dropWhile_append2) auto
  have "\<not> list_ex is_ctl u"
    using h(3) p(3) t(3) by (simp add: u_def is_ctl_def byte_of_def)
  moreover have "parse_authority ip (host @ CHR '':'' # port)"
  proof -
    have "LastIndexByte (CHR ''@'') (host @ CHR '':'' # port) = None"
      using h(1) p(1) by (auto simp: LastIndexByte_def)
    moreover have "LastIndexByte (CHR '':'') (host @ CHR '':'' # port) = Some (length host)"
      using p(1) by (intro LastIndexByte_append) auto
    moreover have "unescape True (host @ CHR '':'' # port) = Some (host @ CHR '':'' # port)"
      using h p by (intro unescape_plain) (auto simp: host_char_def)
    moreover have "hd (host @ CHR '':'' # port) \<noteq> CHR ''[''" using h(1) by (cases host) auto
    ultimately show ?thesis
      using assms(2) by (auto simp: parse_authority_def parse_host_def split: list.split)
  qed
  moreover have "unescape False (CHR ''/'' # topic) = Some (CHR ''/'' # topic)"
    using t(1) by (intro unescape_plain) auto
  ultimately show ?thesis
    unfolding url_path_def Let_def u_def [symmetric] before_byte_none [OF hash] after_byte_none [OF hash]
      rest auth path
    by simp
qed

end
