(* ===== verification/Server.thy ===== *)
theory Server
  imports Execution ClusterTheorems UdpAlloc GoNet
begin

text \<open>
  \<^verbatim>\<open>pkg/rtspsrv/server.go\<close>: the RTSP server and the handler that gortsplib calls.  A
  session is its pointer; the library's requests are the arguments of the handler
  functions (the path, the transport, the new stream).  The handler's functions take
  and return the handler, the manager and the world; \<open>None\<close> is a panic.

  The cluster is shared with the admin server, which changes its draining flags; here
  it is the current content of the shared object.
\<close>

type_synonym session_ptr = nat

record server =
  pubPort :: int
  subPort :: int
  srv_allocator :: "allocator option"
  srv_cluster :: "cluster option"
  enableProxy :: bool
  proxyDialTimeout :: duration
  proxyIOTimeout :: duration

definition NewServer ::
    "int \<Rightarrow> int \<Rightarrow> allocator option \<Rightarrow> cluster option \<Rightarrow> bool \<Rightarrow> duration \<Rightarrow> duration \<Rightarrow> server" where
  "NewServer pubP subP alloc cl proxy dialTO ioTO =
     \<lparr>pubPort = pubP, subPort = subP, srv_allocator = alloc, srv_cluster = cl,
      enableProxy = proxy, proxyDialTimeout = dialTO, proxyIOTimeout = ioTO\<rparr>"

record handler =
  sessTopic :: "(session_ptr, string) fmap"
  sessIsPub :: "(session_ptr, bool) fmap"
  subscriberQSz :: int
  serverRef :: "server option"

definition new_handler :: "server \<Rightarrow> handler" where
  "new_handler srv = \<lparr>sessTopic = fmempty, sessIsPub = fmempty, subscriberQSz = 256,
     serverRef = Some srv\<rparr>"

text \<open>The regular expression \<open>^[A-Za-z0-9_-]+$\<close>.\<close>

definition topic_char :: "char \<Rightarrow> bool" where
  "topic_char c \<longleftrightarrow> (let k = of_char c :: nat in
     (65 \<le> k \<and> k \<le> 90) \<or> (97 \<le> k \<and> k \<le> 122) \<or> (48 \<le> k \<and> k \<le> 57) \<or> k = 95 \<or> k = 45)"

definition topicNameRe :: "string \<Rightarrow> bool" where
  "topicNameRe s \<longleftrightarrow> s \<noteq> [] \<and> list_all topic_char s"

section \<open>Responses\<close>

datatype status_code =
    StatusOK
  | StatusBadRequest
  | StatusNotFound
  | StatusServiceUnavailable
  | StatusUnsupportedTransport

record response =
  StatusCode :: status_code
  Body :: string

definition respond :: "status_code \<Rightarrow> response" where
  "respond c = \<lparr>StatusCode = c, Body = []\<rparr>"

datatype transport = TransportUDP | TransportUDPMulticast | TransportTCP

section \<open>The handler\<close>

text \<open>
  Whether a cluster is configured and another node owns the topic.  The hash is the
  argument of \<open>Owner\<close>.
\<close>

definition owner_is_remote :: "(string \<Rightarrow> 64 word) \<Rightarrow> handler \<Rightarrow> string \<Rightarrow> bool" where
  "owner_is_remote sum64 h topicName = (case serverRef h of
       None \<Rightarrow> False
     | Some srv \<Rightarrow> (case srv_cluster srv of
           None \<Rightarrow> False
         | Some c \<Rightarrow> \<not> IsSelf c (Owner sum64 c topicName)))"

definition OnDescribe :: "string \<Rightarrow> manager \<Rightarrow> response \<times> stream_ptr option" where
  "OnDescribe path m = (let topicName = TrimPrefix path ''/'' in
     case GetTopicStream topicName m of
       Some st \<Rightarrow> (respond StatusOK, Some st)
     | None \<Rightarrow> (respond StatusNotFound, None))"

text \<open>\<open>st\<close> is the stream the library makes from the announced tracks.\<close>

definition OnAnnounce ::
    "(string \<Rightarrow> 64 word) \<Rightarrow> session_ptr \<Rightarrow> string \<Rightarrow> stream_ptr \<Rightarrow> handler \<Rightarrow> manager \<Rightarrow> world
      \<Rightarrow> (response \<times> handler \<times> manager \<times> world) option" where
  "OnAnnounce sum64 sess path st h m w = (let topicName = TrimPrefix path ''/'' in
     if owner_is_remote sum64 h topicName then Some (respond StatusServiceUnavailable, h, m, w)
     else if \<not> topicNameRe topicName then Some (respond StatusBadRequest, h, m, w)
     else let (pub, w1) = NewPublisherSession (show_ptr sess) w in
       case RegisterPublisher topicName pub m w1 of
         None \<Rightarrow> None
       | Some (Some err, m', w') \<Rightarrow> Some (respond StatusBadRequest, h, m', w')
       | Some (None, m', w') \<Rightarrow>
           Some (respond StatusOK,
             h\<lparr>sessTopic := fmupd sess topicName (sessTopic h),
               sessIsPub := fmupd sess True (sessIsPub h)\<rparr>,
             SetTopicStream topicName (Some st) m', w'))"

definition OnRecord :: "world \<Rightarrow> response \<times> world" where
  "OnRecord w = (respond StatusOK,
     with_metrics IncPacketsDispatched (with_metrics IncPacketsReceived w))"

text \<open>The zero value of a map read: no topic, not a publisher.\<close>

definition session_topic :: "handler \<Rightarrow> session_ptr \<Rightarrow> string" where
  "session_topic h sess = (case fmlookup (sessTopic h) sess of None \<Rightarrow> [] | Some n \<Rightarrow> n)"

definition session_is_pub :: "handler \<Rightarrow> session_ptr \<Rightarrow> bool" where
  "session_is_pub h sess = (case fmlookup (sessIsPub h) sess of None \<Rightarrow> False | Some b \<Rightarrow> b)"

text \<open>
  \<open>OnPacketRTP\<close> up to the call of \<open>PublishPacket\<close>: the result is the stream the
  library writes the packet to, and the call.  \<open>raw\<close> is what the RTP library's
  \<open>Marshal\<close> returns, \<open>None\<close> for an error.
\<close>

definition packet_in ::
    "session_ptr \<Rightarrow> int \<Rightarrow> 8 word list option \<Rightarrow> handler \<Rightarrow> manager \<Rightarrow> world
      \<Rightarrow> stream_ptr option \<times> (string \<times> inbound_packet) option \<times> world" where
  "packet_in sess track raw h m w = (let topicName = session_topic h sess in
     if topicName = [] then (None, None, w)
     else case GetTopicStream topicName m of
       None \<Rightarrow> (None, None, w)
     | Some st \<Rightarrow>
         (let w1 = with_metrics IncPacketsReceived w;
              w2 = with_metrics IncPacketsDispatched w1
          in case raw of
            None \<Rightarrow> (Some st, None, w2)
          | Some b \<Rightarrow> (Some st, Some (topicName, \<lparr>Track = track, Raw = b\<rparr>), w2)))"

definition OnPacketRTP ::
    "session_ptr \<Rightarrow> int \<Rightarrow> 8 word list option \<Rightarrow> handler \<Rightarrow> manager \<Rightarrow> world
      \<Rightarrow> (stream_ptr option \<times> manager \<times> world) option" where
  "OnPacketRTP sess track raw h m w = (case packet_in sess track raw h m w of
       (st, None, w1) \<Rightarrow> Some (st, m, w1)
     | (st, Some (topicName, pkt), w1) \<Rightarrow> (case PublishPacket topicName pkt m w1 of
           None \<Rightarrow> None
         | Some (_, m', w') \<Rightarrow> Some (st, m', w')))"

definition udp_message :: string where
  "udp_message = ''UDP transport not supported across cluster; use RTP-over-TCP (interleaved)''"

definition not_local_message :: string where
  "not_local_message =
     ''topic owned by another node; connect to the owner or use the cluster entrypoint''"

definition OnSetup ::
    "(string \<Rightarrow> 64 word) \<Rightarrow> string \<Rightarrow> transport \<Rightarrow> handler \<Rightarrow> manager
      \<Rightarrow> response \<times> stream_ptr option" where
  "OnSetup sum64 path tr h m = (let topicName = TrimPrefix path ''/'' in
     if owner_is_remote sum64 h topicName
     then if tr = TransportUDP \<or> tr = TransportUDPMulticast
       then (\<lparr>StatusCode = StatusUnsupportedTransport, Body = udp_message\<rparr>, None)
       else (\<lparr>StatusCode = StatusServiceUnavailable, Body = not_local_message\<rparr>, None)
     else case GetTopicStream topicName m of
       Some st \<Rightarrow> (respond StatusOK, Some st)
     | None \<Rightarrow> (respond StatusNotFound, None))"

definition OnPlay ::
    "session_ptr \<Rightarrow> string \<Rightarrow> handler \<Rightarrow> manager \<Rightarrow> world
      \<Rightarrow> (response \<times> handler \<times> manager \<times> world) option" where
  "OnPlay sess path h m w = (let topicName = TrimPrefix path ''/'' in
     case NewSubscriberSession (show_ptr sess) (subscriberQSz h) w of
       None \<Rightarrow> None
     | Some (sub, w1) \<Rightarrow> (case RegisterSubscriber topicName sub m w1 of
           (Some err, m', w') \<Rightarrow> Some (respond StatusServiceUnavailable, h, m', w')
         | (None, m', w') \<Rightarrow>
             Some (respond StatusOK,
               h\<lparr>sessTopic := fmupd sess topicName (sessTopic h),
                 sessIsPub := fmupd sess False (sessIsPub h)\<rparr>, m', w')))"

definition OnSessionClose ::
    "session_ptr \<Rightarrow> handler \<Rightarrow> manager \<Rightarrow> world \<Rightarrow> handler \<times> manager \<times> world" where
  "OnSessionClose sess h m w =
     (let topicName = session_topic h sess;
          isPub = session_is_pub h sess;
          h' = h\<lparr>sessTopic := fmdrop sess (sessTopic h), sessIsPub := fmdrop sess (sessIsPub h)\<rparr>
      in if topicName = [] then (h', m, w)
         else if isPub then (case UnregisterPublisher topicName m w of (m', w') \<Rightarrow> (h', m', w'))
         else (case UnregisterSubscriber topicName (show_ptr sess) m w of (m', w') \<Rightarrow> (h', m', w')))"

text \<open>
  \<open>Close\<close> closes the two library servers.  A server that closes ends its sessions and
  calls \<open>OnSessionClose\<close> for each of them before it returns; the argument lists the open
  sessions in the order in which it does.
\<close>

fun server_Close ::
    "session_ptr list \<Rightarrow> handler \<Rightarrow> manager \<Rightarrow> world \<Rightarrow> handler \<times> manager \<times> world" where
  "server_Close [] h m w = (h, m, w)"
| "server_Close (sess # rest) h m w = (case OnSessionClose sess h m w of
       (h', m', w') \<Rightarrow> server_Close rest h' m' w')"

section \<open>Start\<close>

text \<open>
  The settings of one gortsplib server.  \<open>proxied\<close>: its listener is wrapped in a
  \<open>proxyListener\<close>; \<open>from_allocator\<close>: its packet connections come from the
  allocator.
\<close>

record rtsp_settings =
  RTSPAddress :: string
  UDPRTPAddress :: "string option"
  UDPRTCPAddress :: "string option"
  proxied :: bool
  from_allocator :: bool

definition port_address :: "int \<Rightarrow> string" where
  "port_address p = CHR '':'' # show_int p"

definition rtsp_server_settings :: "server \<Rightarrow> int \<Rightarrow> bool \<Rightarrow> int \<Rightarrow> rtsp_settings" where
  "rtsp_server_settings srv port udp base =
     \<lparr>RTSPAddress = port_address port,
      UDPRTPAddress = (if udp \<and> 0 < base then Some (port_address base) else None),
      UDPRTCPAddress = (if udp \<and> 0 < base then Some (port_address (base + 1)) else None),
      proxied = (srv_cluster srv \<noteq> None \<and> enableProxy srv),
      from_allocator = (udp \<and> 0 < base \<and> srv_allocator srv \<noteq> None)\<rparr>"

definition Start :: "server \<Rightarrow> manager \<Rightarrow> handler \<times> rtsp_settings \<times> rtsp_settings" where
  "Start srv m = (let cfg = Config m in
     (new_handler srv,
      rtsp_server_settings srv (pubPort srv) (EnableUDP cfg) (PublisherUDPBase cfg),
      rtsp_server_settings srv (subPort srv) (EnableUDP cfg) (SubscriberUDPBase cfg)))"

text \<open>The \<open>ListenPacket\<close> function: a connection of the allocator, or the call it makes.\<close>

datatype packet_conn = PreBound conn | ListenOn string | AddressError

definition ListenPacket :: "allocator \<Rightarrow> string \<Rightarrow> packet_conn" where
  "ListenPacket a address =
     (case (case SplitHostPort address of
              Some (host, portStr) \<Rightarrow> Some portStr
            | None \<Rightarrow> (case address of c # rest \<Rightarrow> if c = CHR '':'' then Some rest else None
                     | [] \<Rightarrow> None)) of
        None \<Rightarrow> AddressError
      | Some portStr \<Rightarrow> (case Atoi portStr of
            None \<Rightarrow> ListenOn address
          | Some port \<Rightarrow> (case GetConn a port of
                Some pc \<Rightarrow> PreBound pc
              | None \<Rightarrow> ListenOn address)))"

lemma ListenPacket_port_address:
  assumes "0 \<le> p" and "p < 2 ^ 63"
  shows "ListenPacket a (port_address p)
    = (case GetConn a p of Some pc \<Rightarrow> PreBound pc | None \<Rightarrow> ListenOn (port_address p))"
  using assms SplitHostPort_plain [of "[]" "show_int p"] show_int_plain [of p]
  by (simp add: ListenPacket_def port_address_def Atoi_show_int split: option.split)

end
