(* ===== verification/ServerProps.thy ===== *)
theory ServerProps
  imports Server
begin

text \<open>
  The handler and the manager as one transition system, and the invariant that ties
  the handler's two session tables to the manager's registry.  The requests are those
  gortsplib makes; the internal events of the manager (timers, dispatchers, the
  selects of \<open>PublishPacket\<close>, shutdown) interleave with them.
\<close>

record node =
  n_sys :: sys
  n_handler :: handler

datatype request =
    Announce session_ptr string stream_ptr
  | Play session_ptr string
  | Record
  | Packet session_ptr int "8 word list option" nat
  | Session_closes session_ptr
  | Drain string bool
  | Internal event

definition start_node :: "config \<Rightarrow> server \<Rightarrow> world \<Rightarrow> node" where
  "start_node cfg srv w = \<lparr>n_sys = start_sys cfg w, n_handler = new_handler srv\<rparr>"

definition init_node :: "config \<Rightarrow> server \<Rightarrow> node" where
  "init_node cfg srv = start_node cfg srv init_world"

text \<open>The events that no request causes.\<close>

definition internal :: "event \<Rightarrow> bool" where
  "internal e \<longleftrightarrow> (case e of
       Timer_expires _ \<Rightarrow> True
     | Close_runs _ _ \<Rightarrow> True
     | Dispatcher_receives _ \<Rightarrow> True
     | Dispatcher_fans_out _ _ \<Rightarrow> True
     | Publish_selects _ \<Rightarrow> True
     | Shutdown_runs _ \<Rightarrow> True
     | _ \<Rightarrow> False)"

definition drain_server :: "string \<Rightarrow> bool \<Rightarrow> handler \<Rightarrow> handler" where
  "drain_server k d h = h\<lparr>serverRef := map_option (\<lambda>srv.
     srv\<lparr>srv_cluster := map_option (SetDraining k d) (srv_cluster srv)\<rparr>) (serverRef h)\<rparr>"

definition with_state :: "handler \<Rightarrow> manager \<Rightarrow> world \<Rightarrow> node \<Rightarrow> node" where
  "with_state h m w n = n\<lparr>n_sys := (n_sys n)\<lparr>mgr := m, wld := w\<rparr>, n_handler := h\<rparr>"

inductive node_step :: "(string \<Rightarrow> 64 word) \<Rightarrow> node \<Rightarrow> request \<Rightarrow> node \<Rightarrow> bool" for sum64 where
  announces:
    "OnAnnounce sum64 sess path st (n_handler n) (mgr (n_sys n)) (wld (n_sys n))
       = Some (resp, h', m', w') \<Longrightarrow>
     node_step sum64 n (Announce sess path st) (with_state h' m' w' n)"
| plays:
    "OnPlay sess path (n_handler n) (mgr (n_sys n)) (wld (n_sys n)) = Some (resp, h', m', w') \<Longrightarrow>
     node_step sum64 n (Play sess path) (with_state h' m' w' n)"
| records:
    "OnRecord (wld (n_sys n)) = (resp, w') \<Longrightarrow>
     node_step sum64 n Record (with_state (n_handler n) (mgr (n_sys n)) w' n)"
| packet_ignored:
    "packet_in sess track raw (n_handler n) (mgr (n_sys n)) (wld (n_sys n)) = (st, None, w') \<Longrightarrow>
     node_step sum64 n (Packet sess track raw i) (with_state (n_handler n) (mgr (n_sys n)) w' n)"
| packet_published:
    "packet_in sess track raw (n_handler n) (mgr (n_sys n)) (wld (n_sys n))
       = (st, Some (topicName, pkt), w1) \<Longrightarrow>
     idle (calls (n_sys n) i) \<Longrightarrow> publish_begin topicName (mgr (n_sys n)) w1 = (ps, w') \<Longrightarrow>
     node_step sum64 n (Packet sess track raw i)
       (n\<lparr>n_sys := (n_sys n)\<lparr>wld := w', calls := (calls (n_sys n))(i \<mapsto> (topicName, pkt, ps))\<rparr>\<rparr>)"
| session_closes:
    "OnSessionClose sess (n_handler n) (mgr (n_sys n)) (wld (n_sys n)) = (h', m', w') \<Longrightarrow>
     node_step sum64 n (Session_closes sess) (with_state h' m' w' n)"
| drains:
    "node_step sum64 n (Drain k d) (n\<lparr>n_handler := drain_server k d (n_handler n)\<rparr>)"
| internal_step:
    "internal e \<Longrightarrow> sys_step (n_sys n) e s' \<Longrightarrow>
     node_step sum64 n (Internal e) (n\<lparr>n_sys := s'\<rparr>)"

inductive_cases node_stepE: "node_step sum64 n r n'"

text \<open>
  What gortsplib guarantees: a session announces at most once and plays at most once,
  and never does both; its pointer is not used for another session before it is closed.
\<close>

definition library_order :: "node \<Rightarrow> request \<Rightarrow> bool" where
  "library_order n r \<longleftrightarrow> (case r of
       Announce sess _ _ \<Rightarrow> fmlookup (sessTopic (n_handler n)) sess = None
     | Play sess _ \<Rightarrow> fmlookup (sessTopic (n_handler n)) sess = None
     | _ \<Rightarrow> True)"

inductive node_reach :: "(string \<Rightarrow> 64 word) \<Rightarrow> config \<Rightarrow> server \<Rightarrow> node \<Rightarrow> bool" for sum64 cfg srv where
  node_start: "fresh_world w \<Longrightarrow> node_reach sum64 cfg srv (start_node cfg srv w)"
| node_next: "node_reach sum64 cfg srv n \<Longrightarrow> library_order n r \<Longrightarrow> node_step sum64 n r n' \<Longrightarrow>
    node_reach sum64 cfg srv n'"

lemma node_reach_init: "node_reach sum64 cfg srv (init_node cfg srv)"
  by (simp add: init_node_def node_start)

section \<open>The session tables and the registry\<close>

definition publishes :: "handler \<Rightarrow> session_ptr \<Rightarrow> string \<Rightarrow> bool" where
  "publishes h s n \<longleftrightarrow> fmlookup (sessTopic h) s = Some n \<and> fmlookup (sessIsPub h) s = Some True"

definition subscribes :: "handler \<Rightarrow> session_ptr \<Rightarrow> string \<Rightarrow> bool" where
  "subscribes h s n \<longleftrightarrow> fmlookup (sessTopic h) s = Some n \<and> fmlookup (sessIsPub h) s = Some False"

text \<open>
  Every entry of the tables has both halves and a valid name; a publishing session is
  the publisher of its topic; and every publisher and every subscriber of the registry
  is a session of the tables.
\<close>

definition sessions_ok :: "handler \<Rightarrow> registry \<Rightarrow> bool" where [inv_defs]:
  "sessions_ok h r \<longleftrightarrow>
     (\<forall>s n. fmlookup (sessTopic h) s = Some n \<longrightarrow> topicNameRe n \<and> (publishes h s n \<or> subscribes h s n))
   \<and> (\<forall>s n. publishes h s n \<longrightarrow> (\<exists>ss. r n = Some (Some (show_ptr s), ss)))
   \<and> (\<forall>n p ss. r n = Some (Some p, ss) \<longrightarrow> (\<exists>s. p = show_ptr s \<and> publishes h s n))
   \<and> (\<forall>n q ss k. r n = Some (q, ss) \<longrightarrow> k \<in> ss \<longrightarrow> (\<exists>s. k = show_ptr s \<and> subscribes h s n))
   \<and> (\<forall>n. r n \<noteq> None \<longrightarrow> topicNameRe n)"

lemma sessions_okD:
  assumes "sessions_ok h r"
  shows "fmlookup (sessTopic h) s = Some n \<Longrightarrow> topicNameRe n \<and> (publishes h s n \<or> subscribes h s n)"
    and "publishes h s n \<Longrightarrow> \<exists>ss. r n = Some (Some (show_ptr s), ss)"
    and "r n = Some (Some p, ss) \<Longrightarrow> \<exists>s. p = show_ptr s \<and> publishes h s n"
    and "r n = Some (q, ss) \<Longrightarrow> k \<in> ss \<Longrightarrow> \<exists>s. k = show_ptr s \<and> subscribes h s n"
    and "r n \<noteq> None \<Longrightarrow> topicNameRe n"
  using assms unfolding sessions_ok_def by blast+

lemma sessions_ok_start: "sessions_ok (new_handler srv) Map.empty"
  by (simp add: sessions_ok_def new_handler_def publishes_def subscribes_def)

lemma publishes_upd:
  "publishes (h\<lparr>sessTopic := fmupd s n (sessTopic h), sessIsPub := fmupd s b (sessIsPub h)\<rparr>) s' n'
     \<longleftrightarrow> (if s' = s then n' = n \<and> b else publishes h s' n')"
  "subscribes (h\<lparr>sessTopic := fmupd s n (sessTopic h), sessIsPub := fmupd s b (sessIsPub h)\<rparr>) s' n'
     \<longleftrightarrow> (if s' = s then n' = n \<and> \<not> b else subscribes h s' n')"
  by (auto simp: publishes_def subscribes_def)

lemma publishes_drop:
  "publishes (h\<lparr>sessTopic := fmdrop s (sessTopic h), sessIsPub := fmdrop s (sessIsPub h)\<rparr>) s' n'
     \<longleftrightarrow> s' \<noteq> s \<and> publishes h s' n'"
  "subscribes (h\<lparr>sessTopic := fmdrop s (sessTopic h), sessIsPub := fmdrop s (sessIsPub h)\<rparr>) s' n'
     \<longleftrightarrow> s' \<noteq> s \<and> subscribes h s' n'"
  by (auto simp: publishes_def subscribes_def)

lemma sessions_ok_drain: "sessions_ok (drain_server k d h) r = sessions_ok h r"
  by (simp add: sessions_ok_def publishes_def subscribes_def drain_server_def)

lemma new_session_unused:
  assumes "fmlookup (sessTopic h) s = None"
  shows "\<not> publishes h s n" "\<not> subscribes h s n"
  using assms by (simp_all add: publishes_def subscribes_def)

lemma sessions_ok_announce:
  assumes "sessions_ok h r" and "fmlookup (sessTopic h) s = None" and "topicNameRe n"
    and "spec_register_publisher cfg n (show_ptr s) r = (None, r')"
  shows "sessions_ok (h\<lparr>sessTopic := fmupd s n (sessTopic h), sessIsPub := fmupd s True (sessIsPub h)\<rparr>) r'"
proof -
  obtain ss where r': "r' = r(n \<mapsto> (Some (show_ptr s), ss))"
    and ss: "r n = Some (None, ss) \<or> r n = None \<and> ss = {}"
    using assms(4) by (auto simp: spec_register_publisher_def split: if_splits option.splits)
  note unused = new_session_unused [OF assms(2)]
  note ok = sessions_okD [OF assms(1)]
  have nopub: "\<not> publishes h s' n" for s' using ok(2) [of s' n] ss by auto
  show ?thesis
    unfolding sessions_ok_def publishes_upd r'
  proof (intro conjI allI impI, goal_cases)
    case (1 s' n')
    with ok(1) assms(3) show ?case by (auto split: if_splits)
  next
    case (2 s' n')
    with ok(1) assms(3) show ?case by (auto split: if_splits)
  next
    case (3 s' n')
    with ok(2) nopub show ?case by (auto split: if_splits)
  next
    case (4 n' p ss')
    with ok(3) unused show ?case by (auto split: if_splits) metis
  next
    case (5 n' q ss' k)
    have "\<exists>q. r n' = Some (q, ss')" using 5 ss by (auto split: if_splits)
    with ok(4) 5(2) unused show ?case by metis
  next
    case (6 n')
    with ok(5) assms(3) show ?case by (auto split: if_splits)
  qed
qed

lemma sessions_ok_play:
  assumes "sessions_ok h r" and "fmlookup (sessTopic h) s = None"
    and "spec_register_subscriber cfg n (show_ptr s) r = (None, r')"
  shows "sessions_ok (h\<lparr>sessTopic := fmupd s n (sessTopic h), sessIsPub := fmupd s False (sessIsPub h)\<rparr>) r'"
proof -
  obtain q ss where r: "r n = Some (q, ss)" and r': "r' = r(n \<mapsto> (q, insert (show_ptr s) ss))"
    using assms(3) by (auto simp: spec_register_subscriber_def split: if_splits option.splits)
  note unused = new_session_unused [OF assms(2)]
  note ok = sessions_okD [OF assms(1)]
  have name: "topicNameRe n" using ok(5) r by simp
  show ?thesis
    unfolding sessions_ok_def publishes_upd r'
  proof (intro conjI allI impI, goal_cases)
    case (1 s' n')
    with ok(1) name show ?case by (auto split: if_splits)
  next
    case (2 s' n')
    with ok(1) show ?case by (auto split: if_splits)
  next
    case (3 s' n')
    then have "publishes h s' n'" by (auto split: if_splits)
    with ok(2) [OF this] r show ?case by auto
  next
    case (4 n' p ss')
    then have "\<exists>ss. r n' = Some (Some p, ss)" using r by (auto split: if_splits)
    with ok(3) unused show ?case by metis
  next
    case (5 n' q' ss' k)
    show ?case
    proof (cases "n' = n \<and> k = show_ptr s")
      case False
      with 5 r have "\<exists>q ss. r n' = Some (q, ss) \<and> k \<in> ss" by (auto split: if_splits)
      with ok(4) unused show ?thesis by metis
    qed auto
  next
    case (6 n')
    with ok(5) name show ?case by (auto split: if_splits)
  qed
qed

abbreviation forget_session :: "session_ptr \<Rightarrow> handler \<Rightarrow> handler" where
  "forget_session s h \<equiv> h\<lparr>sessTopic := fmdrop s (sessTopic h), sessIsPub := fmdrop s (sessIsPub h)\<rparr>"

lemma show_ptr_publishes_unique:
  assumes "sessions_ok h r" and "publishes h s n" and "publishes h s' n"
  shows "s' = s"
  using sessions_okD(2) [OF assms(1,2)] sessions_okD(2) [OF assms(1,3)] by auto

lemma sessions_ok_forget_publisher:
  assumes "sessions_ok h r" and "publishes h s n"
  shows "sessions_ok (forget_session s h) (spec_unregister_publisher n r)"
proof -
  note ok = sessions_okD [OF assms(1)]
  obtain ss where r: "r n = Some (Some (show_ptr s), ss)" using ok(2) [OF assms(2)] by blast
  have r': "spec_unregister_publisher n r = r(n \<mapsto> (None, ss))"
    using r by (simp add: spec_unregister_publisher_def)
  have nosub: "\<not> subscribes h s n'" for n'
    using assms(2) by (auto simp: publishes_def subscribes_def)
  show ?thesis
    unfolding sessions_ok_def publishes_drop r'
  proof (intro conjI allI impI, goal_cases)
    case (1 s' n')
    with ok(1) show ?case by (auto split: if_splits)
  next
    case (2 s' n')
    with ok(1) show ?case by (auto split: if_splits)
  next
    case (3 s' n')
    then have "n' \<noteq> n" using show_ptr_publishes_unique [OF assms, of s'] by auto
    with 3 ok(2) show ?case by auto
  next
    case (4 n' p ss')
    then have n': "n' \<noteq> n" "r n' = Some (Some p, ss')" by (auto split: if_splits)
    with ok(3) obtain s' where "p = show_ptr s'" "publishes h s' n'" by blast
    with n' assms(2) show ?case by (auto simp: publishes_def)
  next
    case (5 n' q ss' k)
    then have "\<exists>q. r n' = Some (q, ss')" using r by (auto split: if_splits)
    with ok(4) 5(2) nosub show ?case by metis
  next
    case (6 n')
    with ok(5) r show ?case by (auto split: if_splits)
  qed
qed

lemma sessions_ok_forget_subscriber:
  assumes "sessions_ok h r" and "subscribes h s n"
  shows "sessions_ok (forget_session s h) (spec_unregister_subscriber n (show_ptr s) r)"
proof -
  note ok = sessions_okD [OF assms(1)]
  let ?r = "spec_unregister_subscriber n (show_ptr s) r"
  have nopub: "\<not> publishes h s n'" for n'
    using assms(2) by (auto simp: publishes_def subscribes_def)
  have dom: "?r n' = None \<longleftrightarrow> r n' = None" for n' by (simp add: spec_unregister_subscriber_def)
  have old: "\<exists>ss'. r n' = Some (q, ss') \<and> ss = (if n' = n then ss' - {show_ptr s} else ss')"
    if "?r n' = Some (q, ss)" for n' q ss
    using that by (auto simp: spec_unregister_subscriber_def split: if_splits)
  show ?thesis
    unfolding sessions_ok_def publishes_drop
  proof (intro conjI allI impI, goal_cases)
    case (1 s' n')
    with ok(1) show ?case by (auto split: if_splits)
  next
    case (2 s' n')
    with ok(1) show ?case by (auto split: if_splits)
  next
    case (3 s' n')
    with ok(2) [of s' n'] show ?case by (auto simp: spec_unregister_subscriber_def)
  next
    case (4 n' p ss')
    with old [of n' "Some p" ss'] ok(3) nopub show ?case by metis
  next
    case (5 n' q ss' k)
    from old [OF 5(1)] obtain ss where ss: "r n' = Some (q, ss)" "k \<in> ss"
        "n' = n \<longrightarrow> k \<noteq> show_ptr s"
      using 5(2) by (auto split: if_splits)
    from ok(4) [OF ss(1,2)] obtain s' where s': "k = show_ptr s'" "subscribes h s' n'" by blast
    with ss(3) assms(2) have "s' \<noteq> s" by (auto simp: subscribes_def)
    with s' show ?case by blast
  next
    case (6 n')
    then have "r n' \<noteq> None" by (simp add: dom)
    then show ?case by (rule ok(5))
  qed
qed

lemma sessions_ok_forget_unknown:
  assumes "sessions_ok h r" and "fmlookup (sessTopic h) s = None"
  shows "sessions_ok (forget_session s h) r"
proof -
  have "publishes (forget_session s h) s' n = publishes h s' n"
    and "subscribes (forget_session s h) s' n = subscribes h s' n" for s' n
    unfolding publishes_drop using new_session_unused [OF assms(2)] by auto
  moreover have "fmlookup (sessTopic (forget_session s h)) s' = fmlookup (sessTopic h) s'" for s'
    using assms(2) by simp
  ultimately show ?thesis using assms(1) by (simp add: sessions_ok_def)
qed

lemma sessions_ok_expired:
  assumes "sessions_ok h r" and "expired_at_most N r r'"
  shows "sessions_ok h r'"
proof -
  note ok = sessions_okD [OF assms(1)]
  have same: "r' n = r n \<or> r' n = map_option (\<lambda>(p, ss). (p, {})) (r n)" for n
    using assms(2) by (auto simp: expired_at_most_def)
  have old: "\<exists>ss'. r n = Some (q, ss') \<and> ss \<subseteq> ss'" if "r' n = Some (q, ss)" for n q ss
    using same [of n] that by (cases "r n") auto
  show ?thesis
    unfolding sessions_ok_def
  proof (intro conjI allI impI, goal_cases)
    case (3 s n)
    with ok(2) [OF 3] same [of n] show ?case by auto
  next
    case (4 n p ss)
    with old ok(3) show ?case by metis
  next
    case (5 n q ss k)
    with old ok(4) show ?case by (metis subsetD)
  next
    case (6 n)
    with same [of n] ok(5) [of n] show ?case by auto
  qed (use ok(1) in auto)
qed

section \<open>The simulation\<close>

text \<open>The disciplines of the manager's users, together.\<close>

definition both_disciplines :: "sys \<Rightarrow> event \<Rightarrow> bool" where
  "both_disciplines s e \<longleftrightarrow> paired_publishers s e \<and> fresh_subscribers s e"

lemma reach_mono: "reach D cfg s \<Longrightarrow> (\<And>s e. D s e \<Longrightarrow> D' s e) \<Longrightarrow> reach D' cfg s"
  by (induction rule: reach.induct) (auto intro: reach.intros)

lemma both_reach:
  assumes "reach both_disciplines cfg s"
  shows "reach paired_publishers cfg s" "reach fresh_subscribers cfg s" "mgr_ok (mgr s)"
    "count_exact (mgr s)" "m_cfg (mgr s) = cfg"
proof -
  show paired: "reach paired_publishers cfg s" and "reach fresh_subscribers cfg s"
    using assms by (auto elim: reach_mono simp: both_disciplines_def)
  show "mgr_ok (mgr s)" "m_cfg (mgr s) = cfg" using assms reach_mgr_ok reach_ok by blast+
  show "count_exact (mgr s)"
    using pub_count.reach_invariant [OF paired] by (simp add: publishers_exact_def)
qed

lemma topic_published_registry:
  "topic_published m n \<longleftrightarrow> (\<exists>p ss. registry_of m n = Some (Some p, ss))"
  by (auto simp: topic_published_def registry_of_def topic_entry_def HasPublisher_def)

lemma subscribed_registry:
  "subscribed m n k \<longleftrightarrow> (\<exists>q ss. registry_of m n = Some (q, ss) \<and> k \<in> ss)"
  by (auto simp: subscribed_def registry_of_def topic_entry_def fmlookup_dom'_iff)

definition node_ok :: "config \<Rightarrow> node \<Rightarrow> bool" where
  "node_ok cfg n \<longleftrightarrow> reach both_disciplines cfg (n_sys n)
     \<and> sessions_ok (n_handler n) (registry_of (mgr (n_sys n)))"

lemma with_state_same [simp]: "with_state (n_handler n) (mgr (n_sys n)) (wld (n_sys n)) n = n"
  by (simp add: with_state_def)

lemma node_ok_announce:
  assumes ok: "node_ok cfg n" and size: "0 \<le> PublisherQueueSize cfg"
    and lib: "fmlookup (sessTopic (n_handler n)) sess = None"
    and call: "OnAnnounce sum64 sess path st (n_handler n) (mgr (n_sys n)) (wld (n_sys n))
      = Some (resp, h', m', w')"
  shows "node_ok cfg (with_state h' m' w' n)"
proof -
  let ?s = "n_sys n" and ?h = "n_handler n" and ?t = "TrimPrefix path ''/''"
  have reach: "reach both_disciplines cfg ?s" and sess: "sessions_ok ?h (registry_of (mgr ?s))"
    using ok by (simp_all add: node_ok_def)
  note facts = both_reach [OF reach]
  show ?thesis
  proof (cases "owner_is_remote sum64 ?h ?t \<or> \<not> topicNameRe ?t")
    case True
    with call have "h' = ?h" "m' = mgr ?s" "w' = wld ?s"
      by (auto simp: OnAnnounce_def Let_def split: if_splits)
    with ok show ?thesis by simp
  next
    case False
    obtain pub w1 where pub: "NewPublisherSession (show_ptr sess) (wld ?s) = (pub, w1)" by fastforce
    have id: "pub_id pub = show_ptr sess" using NewPublisherSession_id [OF pub] by simp
    obtain e m1 w2 where reg: "RegisterPublisher ?t pub (mgr ?s) w1 = Some (e, m1, w2)"
      and spec: "spec_register_publisher cfg ?t (show_ptr sess) (registry_of (mgr ?s)) = (e, registry_of m1)"
      using RegisterPublisher_refines [OF facts(4), of ?t pub w1] size facts(5) id by auto
    have "sys_step ?s (Publisher_registers ?t (show_ptr sess)) (?s\<lparr>mgr := m1, wld := w2\<rparr>)"
      using pub reg by (rule sys_step.publisher_registers)
    moreover have "both_disciplines ?s (Publisher_registers ?t (show_ptr sess))"
      by (simp add: both_disciplines_def paired_publishers_def fresh_subscribers_def)
    ultimately have reach1: "reach both_disciplines cfg (?s\<lparr>mgr := m1, wld := w2\<rparr>)"
      using reach reach.step by blast
    show ?thesis
    proof (cases e)
      case (Some err)
      with spec have "registry_of m1 = registry_of (mgr ?s)"
        by (auto simp: spec_register_publisher_def split: if_splits option.splits)
      with Some False pub reg call reach1 sess show ?thesis
        by (auto simp: OnAnnounce_def node_ok_def with_state_def)
    next
      case None
      let ?h' = "?h\<lparr>sessTopic := fmupd sess ?t (sessTopic ?h), sessIsPub := fmupd sess True (sessIsPub ?h)\<rparr>"
      have res: "h' = ?h'" "m' = SetTopicStream ?t (Some st) m1" "w' = w2"
        using None False pub reg call by (simp_all add: OnAnnounce_def Let_def)
      let ?s1 = "?s\<lparr>mgr := m1, wld := w2\<rparr>"
      have "?s\<lparr>mgr := m', wld := w'\<rparr> = ?s1\<lparr>mgr := SetTopicStream ?t (Some st) (mgr ?s1)\<rparr>"
        by (rule sys.equality) (simp_all add: res)
      moreover have "both_disciplines ?s1 (Stream_set ?t (Some st))"
        by (simp add: both_disciplines_def paired_publishers_def fresh_subscribers_def)
      ultimately have "reach both_disciplines cfg (?s\<lparr>mgr := m', wld := w'\<rparr>)"
        using reach.step [OF reach1 _ sys_step.stream_set] by simp
      moreover have "registry_of m' = registry_of m1"
        by (simp add: res SetTopicStream_def registry_of_topic_update split: option.split)
      moreover have "sessions_ok ?h' (registry_of m1)"
        using sessions_ok_announce [OF sess lib _ ] False spec None by blast
      ultimately show ?thesis by (simp add: node_ok_def with_state_def res(1))
    qed
  qed
qed

lemma node_ok_play:
  assumes ok: "node_ok cfg n" and lib: "fmlookup (sessTopic (n_handler n)) sess = None"
    and call: "OnPlay sess path (n_handler n) (mgr (n_sys n)) (wld (n_sys n)) = Some (resp, h', m', w')"
  shows "node_ok cfg (with_state h' m' w' n)"
proof -
  let ?s = "n_sys n" and ?h = "n_handler n" and ?t = "TrimPrefix path ''/''"
  have reach: "reach both_disciplines cfg ?s" and sess: "sessions_ok ?h (registry_of (mgr ?s))"
    using ok by (simp_all add: node_ok_def)
  note facts = both_reach [OF reach]
  obtain sub w1 where sub: "NewSubscriberSession (show_ptr sess) (subscriberQSz ?h) (wld ?s) = Some (sub, w1)"
    using call by (auto simp: OnPlay_def Let_def split: option.splits prod.splits)
  have id: "sub_id sub = show_ptr sess" using NewSubscriberSession_ok [OF sub] by simp
  obtain e m1 w2 where reg: "RegisterSubscriber ?t sub (mgr ?s) w1 = (e, m1, w2)"
    using prod_cases3 by blast
  have spec: "spec_register_subscriber cfg ?t (show_ptr sess) (registry_of (mgr ?s)) = (e, registry_of m1)"
    using RegisterSubscriber_refines [OF reg] id facts(5) by simp
  have "\<not> subscribed (mgr ?s) ?t (show_ptr sess)"
  proof
    assume "subscribed (mgr ?s) ?t (show_ptr sess)"
    then obtain s where "show_ptr sess = show_ptr s" "subscribes ?h s ?t"
      using sessions_okD(4) [OF sess] unfolding subscribed_registry by metis
    with new_session_unused(2) [OF lib] show False by simp
  qed
  then have "both_disciplines ?s (Subscriber_registers ?t (show_ptr sess) (subscriberQSz ?h))"
    by (simp add: both_disciplines_def paired_publishers_def fresh_subscribers_def)
  moreover have "sys_step ?s (Subscriber_registers ?t (show_ptr sess) (subscriberQSz ?h))
      (?s\<lparr>mgr := m1, wld := w2\<rparr>)"
    using sub reg by (rule sys_step.subscriber_registers)
  ultimately have reach1: "reach both_disciplines cfg (?s\<lparr>mgr := m1, wld := w2\<rparr>)"
    using reach reach.step by blast
  show ?thesis
  proof (cases e)
    case (Some err)
    with spec have "registry_of m1 = registry_of (mgr ?s)"
      by (auto simp: spec_register_subscriber_def split: if_splits option.splits)
    with Some sub reg call reach1 sess show ?thesis
      by (auto simp: OnPlay_def node_ok_def with_state_def)
  next
    case None
    with spec have "sessions_ok (?h\<lparr>sessTopic := fmupd sess ?t (sessTopic ?h),
        sessIsPub := fmupd sess False (sessIsPub ?h)\<rparr>) (registry_of m1)"
      by (intro sessions_ok_play [OF sess lib]) simp
    with None sub reg call reach1 show ?thesis
      by (auto simp: OnPlay_def node_ok_def with_state_def)
  qed
qed

lemma node_ok_close:
  assumes ok: "node_ok cfg n"
    and call: "OnSessionClose sess (n_handler n) (mgr (n_sys n)) (wld (n_sys n)) = (h', m', w')"
  shows "node_ok cfg (with_state h' m' w' n)"
proof -
  let ?s = "n_sys n" and ?h = "n_handler n"
  have reach: "reach both_disciplines cfg ?s" and sess: "sessions_ok ?h (registry_of (mgr ?s))"
    using ok by (simp_all add: node_ok_def)
  consider (unknown) "fmlookup (sessTopic ?h) sess = None"
    | (pub) t where "publishes ?h sess t" | (sub) t where "subscribes ?h sess t"
    using sessions_okD(1) [OF sess, of sess] by fastforce
  then show ?thesis
  proof cases
    case unknown
    with call have "h' = forget_session sess ?h" "m' = mgr ?s" "w' = wld ?s"
      by (simp_all add: OnSessionClose_def session_topic_def)
    with sessions_ok_forget_unknown [OF sess unknown] reach show ?thesis
      by (simp add: node_ok_def with_state_def)
  next
    case (pub t)
    then have "t \<noteq> []" using sessions_okD(1) [OF sess] by (auto simp: publishes_def topicNameRe_def)
    with pub call have h': "h' = forget_session sess ?h"
      and un: "UnregisterPublisher t (mgr ?s) (wld ?s) = (m', w')"
      by (auto simp: OnSessionClose_def session_topic_def session_is_pub_def publishes_def Let_def
          split: prod.splits)
    have "topic_published (mgr ?s) t"
      using sessions_okD(2) [OF sess pub] by (auto simp: topic_published_registry)
    then have "both_disciplines ?s (Publisher_leaves t)"
      by (simp add: both_disciplines_def paired_publishers_def fresh_subscribers_def)
    with un reach have "reach both_disciplines cfg (?s\<lparr>mgr := m', wld := w'\<rparr>)"
      using reach.step sys_step.publisher_leaves by blast
    moreover have "registry_of m' = spec_unregister_publisher t (registry_of (mgr ?s))"
      using UnregisterPublisher_refines [of t "mgr ?s" "wld ?s"] un by simp
    ultimately show ?thesis
      using sessions_ok_forget_publisher [OF sess pub] by (simp add: node_ok_def with_state_def h')
  next
    case (sub t)
    then have "t \<noteq> []" using sessions_okD(1) [OF sess] by (auto simp: subscribes_def topicNameRe_def)
    with sub call have h': "h' = forget_session sess ?h"
      and un: "UnregisterSubscriber t (show_ptr sess) (mgr ?s) (wld ?s) = (m', w')"
      by (auto simp: OnSessionClose_def session_topic_def session_is_pub_def subscribes_def Let_def
          split: prod.splits)
    have "both_disciplines ?s (Subscriber_leaves t (show_ptr sess))"
      by (simp add: both_disciplines_def paired_publishers_def fresh_subscribers_def)
    with un reach have "reach both_disciplines cfg (?s\<lparr>mgr := m', wld := w'\<rparr>)"
      using reach.step sys_step.subscriber_leaves by blast
    moreover have "registry_of m' = spec_unregister_subscriber t (show_ptr sess) (registry_of (mgr ?s))"
      using UnregisterSubscriber_refines [of t "show_ptr sess" "mgr ?s" "wld ?s"] un by simp
    ultimately show ?thesis
      using sessions_ok_forget_subscriber [OF sess sub] by (simp add: node_ok_def with_state_def h')
  qed
qed

lemma node_ok_counted:
  assumes "reach both_disciplines cfg s"
  shows "reach both_disciplines cfg
    (s\<lparr>wld := with_metrics IncPacketsDispatched (with_metrics IncPacketsReceived (wld s))\<rparr>)"
proof (rule reach.step [OF assms _ sys_step.packet_counted])
  show "both_disciplines s Packet_counted"
    by (simp add: both_disciplines_def paired_publishers_def fresh_subscribers_def)
qed

lemma packet_in_world:
  "packet_in sess track raw h m w = (st, call, w') \<Longrightarrow>
   w' = w \<or> w' = with_metrics IncPacketsDispatched (with_metrics IncPacketsReceived w)"
  by (auto simp: packet_in_def Let_def split: if_splits option.splits)

lemma packet_in_call:
  "packet_in sess track raw h m w = (st, Some c, w') \<Longrightarrow>
   w' = with_metrics IncPacketsDispatched (with_metrics IncPacketsReceived w)"
  by (auto simp: packet_in_def Let_def split: if_splits option.splits)

lemma node_ok_packet:
  assumes ok: "node_ok cfg n"
    and call: "packet_in sess track raw (n_handler n) (mgr (n_sys n)) (wld (n_sys n))
       = (st, Some (topicName, pkt), w1)"
    and idle: "idle (calls (n_sys n) i)"
    and started: "publish_begin topicName (mgr (n_sys n)) w1 = (ps, w')"
  shows "node_ok cfg (n\<lparr>n_sys := (n_sys n)\<lparr>wld := w',
     calls := (calls (n_sys n))(i \<mapsto> (topicName, pkt, ps))\<rparr>\<rparr>)"
proof -
  let ?s = "n_sys n"
  let ?s1 = "?s\<lparr>wld := w1\<rparr>"
  have reach1: "reach both_disciplines cfg ?s1"
    using node_ok_counted [of cfg ?s] ok packet_in_call [OF call] by (simp add: node_ok_def)
  have "sys_step ?s1 (Publish_called i topicName pkt)
      (?s1\<lparr>wld := w', calls := (calls ?s1)(i \<mapsto> (topicName, pkt, ps))\<rparr>)"
    using idle started by (intro sys_step.publish_called) simp_all
  moreover have "both_disciplines ?s1 (Publish_called i topicName pkt)"
    by (simp add: both_disciplines_def paired_publishers_def fresh_subscribers_def)
  ultimately have "reach both_disciplines cfg
      (?s1\<lparr>wld := w', calls := (calls ?s1)(i \<mapsto> (topicName, pkt, ps))\<rparr>)"
    using reach1 reach.step by blast
  with ok show ?thesis by (simp add: node_ok_def)
qed

lemma node_ok_internal:
  assumes ok: "node_ok cfg n" and size: "0 \<le> PublisherQueueSize cfg"
    and step: "internal e" "sys_step (n_sys n) e s'"
  shows "node_ok cfg (n\<lparr>n_sys := s'\<rparr>)"
proof -
  have reach: "reach both_disciplines cfg (n_sys n)"
    and sess: "sessions_ok (n_handler n) (registry_of (mgr (n_sys n)))"
    using ok by (simp_all add: node_ok_def)
  note facts = both_reach [OF reach]
  have "both_disciplines (n_sys n) e"
    using step(1) by (auto simp: internal_def both_disciplines_def paired_publishers_def
        fresh_subscribers_def split: event.splits)
  with reach step(2) have "reach both_disciplines cfg s'" using reach.step by blast
  moreover have "spec_step cfg e (registry_of (mgr (n_sys n))) (registry_of (mgr s'))"
    using sys_step_refines_registry [OF step(2) facts(3,4)] size facts(5) by simp
  with step(1) sess have "sessions_ok (n_handler n) (registry_of (mgr s'))"
    by (cases e) (auto simp: internal_def intro: sessions_ok_expired)
  ultimately show ?thesis by (simp add: node_ok_def)
qed

lemma node_step_ok:
  assumes "node_step sum64 n r n'" and "node_ok cfg n" and "library_order n r"
    and "0 \<le> PublisherQueueSize cfg"
  shows "node_ok cfg n'"
  using assms
proof (induction rule: node_step.induct)
  case (announces sess path st n resp h' m' w')
  then show ?case by (intro node_ok_announce) (simp_all add: library_order_def)
next
  case (plays sess path n resp h' m' w')
  then show ?case by (intro node_ok_play) (simp_all add: library_order_def)
next
  case (records n resp w')
  then show ?case
    using node_ok_counted [of cfg "n_sys n"] by (auto simp: OnRecord_def node_ok_def with_state_def)
next
  case (packet_ignored sess track raw n st w' i)
  then show ?case
    using node_ok_counted [of cfg "n_sys n"] packet_in_world [OF packet_ignored(1)]
    by (auto simp: node_ok_def with_state_def)
next
  case (packet_published sess track raw n st topicName pkt w1 i ps w')
  then show ?case by (intro node_ok_packet)
next
  case (session_closes sess n h' m' w')
  then show ?case by (intro node_ok_close)
next
  case (drains n k d)
  then show ?case by (simp add: node_ok_def sessions_ok_drain)
next
  case (internal_step e n s')
  then show ?case by (intro node_ok_internal)
qed

lemma node_reach_ok:
  "node_reach sum64 cfg srv n \<Longrightarrow> 0 \<le> PublisherQueueSize cfg \<Longrightarrow> node_ok cfg n"
proof (induction rule: node_reach.induct)
  case node_start
  then show ?case
    by (simp add: node_ok_def start_node_def reach.start)
       (simp add: start_sys_def registry_of_NewManager sessions_ok_start)
next
  case (node_next n r n')
  then show ?case using node_step_ok by blast
qed

section \<open>Streams\<close>

text \<open>A topic has a stream only while it has a publisher.\<close>

definition streams_ok :: "manager \<Rightarrow> bool" where [inv_defs]:
  "streams_ok m \<longleftrightarrow> (\<forall>k t. fmlookup (topics m) k = Some t \<longrightarrow> stream t \<noteq> None \<longrightarrow> publisher t \<noteq> None)"

definition same_streams :: "manager \<Rightarrow> manager \<Rightarrow> bool" where
  "same_streams m m' \<longleftrightarrow> (\<forall>k. map_option (\<lambda>t. (publisher t, stream t)) (fmlookup (topics m') k)
     = map_option (\<lambda>t. (publisher t, stream t)) (fmlookup (topics m) k))"

lemma same_streams_refl [simp]: "same_streams m m"
  by (simp add: same_streams_def)

lemma same_streams_trans: "same_streams m m' \<Longrightarrow> same_streams m' m'' \<Longrightarrow> same_streams m m''"
  by (simp add: same_streams_def)

lemma same_streams_set_topic:
  "fmlookup (topics m) k = Some t \<Longrightarrow> publisher t' = publisher t \<Longrightarrow> stream t' = stream t \<Longrightarrow>
   same_streams m (set_topic k t' m)"
  by (simp add: same_streams_def)

lemma streams_ok_same:
  assumes "streams_ok m" and "same_streams m m'"
  shows "streams_ok m'"
  unfolding streams_ok_def
proof (intro allI impI)
  fix k t assume t: "fmlookup (topics m') k = Some t" and st: "stream t \<noteq> None"
  have "map_option (\<lambda>t. (publisher t, stream t)) (fmlookup (topics m') k)
      = map_option (\<lambda>t. (publisher t, stream t)) (fmlookup (topics m) k)"
    using assms(2) by (simp add: same_streams_def)
  then obtain u where u: "fmlookup (topics m) k = Some u" "publisher u = publisher t" "stream u = stream t"
    using t by (cases "fmlookup (topics m) k") auto
  with assms(1) st show "publisher t \<noteq> None" unfolding streams_ok_def by metis
qed

lemma streams_ok_set_topic:
  "streams_ok m \<Longrightarrow> (stream t \<noteq> None \<Longrightarrow> publisher t \<noteq> None) \<Longrightarrow> streams_ok (set_topic k t m)"
  by (auto simp: streams_ok_def)

lemma streams_ok_count [simp]: "streams_ok (m\<lparr>publisherCount := c\<rparr>) = streams_ok m"
  by (simp add: streams_ok_def)

lemma streams_ok_RegisterPublisher:
  "streams_ok m \<Longrightarrow> RegisterPublisher k p m w = Some (e, m', w') \<Longrightarrow> streams_ok m'"
  by (auto simp: RegisterPublisher_eq split: if_splits intro!: streams_ok_set_topic)

lemma streams_ok_UnregisterPublisher:
  "streams_ok m \<Longrightarrow> streams_ok (fst (UnregisterPublisher k m w))"
  by (auto simp: UnregisterPublisher_def Let_def split_beta RemovePublisher_def split: option.split
      intro!: streams_ok_set_topic) (fastforce simp: streams_ok_def)

lemma same_streams_RegisterSubscriber:
  "RegisterSubscriber k sub m w = (e, m', w') \<Longrightarrow> same_streams m m'"
  by (auto simp: RegisterSubscriber_def split: if_splits option.splits intro!: same_streams_set_topic)

lemma same_streams_UnregisterSubscriber: "same_streams m (fst (UnregisterSubscriber k i m w))"
  by (auto simp: UnregisterSubscriber_def Let_def split_beta split: option.split
      intro!: same_streams_set_topic)

lemma streams_ok_SetTopicStream:
  "streams_ok m \<Longrightarrow> topic_published m k \<Longrightarrow> streams_ok (SetTopicStream k st m)"
  by (auto simp: SetTopicStream_def topic_published_def HasPublisher_def split: option.split
      intro!: streams_ok_set_topic)

lemma same_streams_Shutdown:
  assumes "mgr_ok m" and "shutdown_order ord m" and "Shutdown ord m w = Some (m', w')"
  shows "same_streams m m'"
proof -
  have "\<exists>m' w'. Shutdown ord m w = Some (m', w') \<and> mgr_ok m' \<and> same_streams m m'"
  proof (rule Shutdown_invariant [where I = "\<lambda>m' w. mgr_ok m' \<and> same_streams m m'"])
    show "mgr_ok (set_topic k (closed_topic t) m') \<and> same_streams m (set_topic k (closed_topic t) m')"
      if "mgr_ok m' \<and> same_streams m m'" "fmlookup (topics m') k = Some t" for m' k t
    proof
      show "mgr_ok (set_topic k (closed_topic t) m')"
        using that topic_fits_closed_topic topic_fits_lookup mgr_ok_set_topic by blast
      have "same_streams m' (set_topic k (closed_topic t) m')"
        using that(2) by (rule same_streams_set_topic) simp_all
      with that(1) show "same_streams m (set_topic k (closed_topic t) m')"
        using same_streams_trans by blast
    qed
  qed (use assms in \<open>auto simp: shutdown_order_def enumerates_def mgr_okD(2)\<close>)
  with assms(3) show ?thesis by auto
qed

lemma internal_same_streams:
  assumes "sys_step s e s'" and "mgr_ok (mgr s)" and "internal e"
  shows "same_streams (mgr s) (mgr s')"
  using assms
proof (induction rule: sys_step.induct)
  case (close_runs s n t ids t' w')
  then have "topic_ok t" by (simp add: mgr_okD(2))
  from this close_runs(2,3) have "publisher t' = publisher t \<and> stream t' = stream t"
    by (cases rule: run_pending_close_cases) auto
  with close_runs(1) show ?case by (auto intro: same_streams_set_topic)
next
  case (dispatcher_fans_out s n t ids t' w')
  then have "topic_ok t" by (simp add: mgr_okD(2))
  from this dispatcher_fans_out(2,3) have "publisher t' = publisher t \<and> stream t' = stream t"
    by (cases rule: dispatcher_body_cases) auto
  with dispatcher_fans_out(1) show ?case by (auto intro: same_streams_set_topic)
next
  case (publish_selects s i n pkt st t st' t' w')
  then have "publisher t' = publisher t" "stream t' = stream t"
    by (auto simp: publish_select_def split: publish_state.splits send_outcome.splits)
  with publish_selects(2) show ?case by (auto intro: same_streams_set_topic)
next
  case (shutdown_runs ord s m' w')
  then show ?case using same_streams_Shutdown by simp
qed (auto simp: internal_def intro: same_streams_set_topic)

lemma node_step_streams:
  assumes "node_step sum64 n r n'" and "node_ok cfg n" and "streams_ok (mgr (n_sys n))"
  shows "streams_ok (mgr (n_sys n'))"
  using assms
proof (induction rule: node_step.induct)
  case (announces sess path st n resp h' m' w')
  then show ?case
    by (auto simp: OnAnnounce_def Let_def with_state_def RegisterPublisher_eq HasPublisher_def
        topic_published_def split: if_splits option.splits prod.splits
        intro!: streams_ok_SetTopicStream streams_ok_set_topic)
next
  case (plays sess path n resp h' m' w')
  then show ?case
    by (auto simp: OnPlay_def Let_def with_state_def split: option.splits prod.splits
        dest!: same_streams_RegisterSubscriber intro: streams_ok_same)
next
  case (session_closes sess n h' m' w')
  then show ?case
    using streams_ok_UnregisterPublisher [of "mgr (n_sys n)"]
      streams_ok_same [OF _ same_streams_UnregisterSubscriber, of "mgr (n_sys n)"]
    by (auto simp: OnSessionClose_def Let_def with_state_def split: if_splits prod.splits)
       (metis fst_conv)+
next
  case (internal_step e n s')
  then have "mgr_ok (mgr (n_sys n))" by (auto simp: node_ok_def dest: both_reach(3))
  with internal_step show ?case using internal_same_streams streams_ok_same by auto
qed (auto simp: with_state_def)

lemma node_reach_streams:
  "node_reach sum64 cfg srv n \<Longrightarrow> 0 \<le> PublisherQueueSize cfg \<Longrightarrow> streams_ok (mgr (n_sys n))"
proof (induction rule: node_reach.induct)
  case node_start
  then show ?case by (simp add: start_node_def start_sys_def NewManager_def streams_ok_def)
next
  case (node_next n r n')
  then show ?case using node_step_streams node_reach_ok by blast
qed

end
