(* ===== verification/ServerTheorems.thy ===== *)
theory ServerTheorems
  imports ServerProps
begin

text \<open>
  The properties of the RTSP handler: its session tables and the manager agree, the
  counters count sessions, what every request is answered, and what closing a session
  undoes.
\<close>

section \<open>Sessions\<close>

lemma registry_publisher_iff:
  "(\<exists>ss. registry_of m n = Some (Some k, ss))
     \<longleftrightarrow> (\<exists>t p. fmlookup (topics m) n = Some t \<and> publisher t = Some p \<and> pub_id p = k)"
  by (auto simp: registry_of_def topic_entry_def)


text \<open>Requests as an executable function, for concrete runs.\<close>

fun exec_request :: "(string \<Rightarrow> 64 word) \<Rightarrow> request \<Rightarrow> node \<Rightarrow> node option" where
  "exec_request sum64 (Announce sess path st) n = map_option (\<lambda>(_, h, m, w). with_state h m w n)
     (OnAnnounce sum64 sess path st (n_handler n) (mgr (n_sys n)) (wld (n_sys n)))"
| "exec_request sum64 (Play sess path) n = map_option (\<lambda>(_, h, m, w). with_state h m w n)
     (OnPlay sess path (n_handler n) (mgr (n_sys n)) (wld (n_sys n)))"
| "exec_request sum64 Record n =
     Some (with_state (n_handler n) (mgr (n_sys n)) (snd (OnRecord (wld (n_sys n)))) n)"
| "exec_request sum64 (Packet sess track raw i) n =
     (case packet_in sess track raw (n_handler n) (mgr (n_sys n)) (wld (n_sys n)) of
        (_, None, w) \<Rightarrow> Some (with_state (n_handler n) (mgr (n_sys n)) w n)
      | (_, Some (k, pkt), w1) \<Rightarrow> if idle (calls (n_sys n) i)
          then (case publish_begin k (mgr (n_sys n)) w1 of (ps, w) \<Rightarrow>
            Some (n\<lparr>n_sys := (n_sys n)\<lparr>wld := w, calls := (calls (n_sys n))(i \<mapsto> (k, pkt, ps))\<rparr>\<rparr>))
          else None)"
| "exec_request sum64 (Session_closes sess) n =
     (case OnSessionClose sess (n_handler n) (mgr (n_sys n)) (wld (n_sys n)) of
        (h, m, w) \<Rightarrow> Some (with_state h m w n))"
| "exec_request sum64 (Drain k d) n = Some (n\<lparr>n_handler := drain_server k d (n_handler n)\<rparr>)"
| "exec_request sum64 (Internal e) n = (if internal e
     then map_option (\<lambda>s. n\<lparr>n_sys := s\<rparr>) (exec_event e (n_sys n)) else None)"

lemma exec_request_sound: "exec_request sum64 r n = Some n' \<Longrightarrow> node_step sum64 n r n'"
  by (cases r)
     (auto intro: node_step.intros node_step.records [OF surjective_pairing] exec_event_sound
       split: prod.splits option.splits if_splits)

fun run_requests :: "(string \<Rightarrow> 64 word) \<Rightarrow> request list \<Rightarrow> node \<Rightarrow> node option" where
  "run_requests sum64 [] n = Some n"
| "run_requests sum64 (r # rs) n = (if library_order n r
     then (case exec_request sum64 r n of None \<Rightarrow> None | Some n' \<Rightarrow> run_requests sum64 rs n')
     else None)"

lemma run_requests_reach:
  "run_requests sum64 rs n = Some n' \<Longrightarrow> node_reach sum64 cfg srv n \<Longrightarrow> node_reach sum64 cfg srv n'"
proof (induction rs arbitrary: n)
  case Nil
  then show ?case by simp
next
  case (Cons r rs)
  then obtain n1 where "library_order n r" "exec_request sum64 r n = Some n1"
    "run_requests sum64 rs n1 = Some n'"
    by (auto split: if_splits option.splits)
  with Cons show ?case by (meson exec_request_sound node_reach.node_next)
qed

lemma run_requests_start:
  "run_requests sum64 rs (init_node cfg srv) = Some n \<Longrightarrow> node_reach sum64 cfg srv n"
  using run_requests_reach node_reach_init by blast

text \<open>One machine without a cluster; session 1 publishes, session 2 reads.\<close>

definition demo_server :: server where
  "demo_server = NewServer 9191 9192 None None True 3 30"

definition one_reader :: "request list" where
  "one_reader = [Announce 1 ''/cam'' 7, Record, Play 2 ''/cam'']"

lemmas server_eval = OnAnnounce_def OnPlay_def OnSessionClose_def OnRecord_def with_state_def
  init_node_def start_node_def new_handler_def owner_is_remote_def demo_server_def NewServer_def topicNameRe_def
  topic_char_def session_topic_def session_is_pub_def TrimPrefix_def HasPrefix_def respond_def
  library_order_def show_ptr_def radix_str.simps digit_char_def

lemma one_reader_run:
  obtains n t p where "run_requests byte_sum one_reader (init_node demo_config demo_server) = Some n"
    and "fmlookup (topics (mgr (n_sys n))) ''cam'' = Some t" and "publisher t = Some p"
    and "pub_id p = show_ptr 1" and "stream t = Some 7" and "fmsize (subscribers t) = 1"
    and "publishes (n_handler n) 1 ''cam''" and "subscribes (n_handler n) 2 ''cam''"
    and "publisherCount (mgr (n_sys n)) = 1"
  by (simp add: one_reader_def server_eval run_eval publishes_def subscribes_def)


section \<open>Counting sessions\<close>

lemma published_names_sessions:
  assumes "sessions_ok h r"
  shows "card {s. \<exists>k. publishes h s k} = card (published_names r)"
proof (rule bij_betw_same_card)
  show "bij_betw (\<lambda>s. the (fmlookup (sessTopic h) s)) {s. \<exists>k. publishes h s k} (published_names r)"
    unfolding bij_betw_def
  proof
    show "inj_on (\<lambda>s. the (fmlookup (sessTopic h) s)) {s. \<exists>k. publishes h s k}"
    proof (rule inj_onI)
      fix s s' assume "s \<in> {s. \<exists>k. publishes h s k}" "s' \<in> {s. \<exists>k. publishes h s k}"
        "the (fmlookup (sessTopic h) s) = the (fmlookup (sessTopic h) s')"
      then obtain k where "publishes h s k" "publishes h s' k" by (auto simp: publishes_def)
      then show "s = s'" using show_ptr_publishes_unique [OF assms] by metis
    qed
    show "(\<lambda>s. the (fmlookup (sessTopic h) s)) ` {s. \<exists>k. publishes h s k} = published_names r"
    proof (intro set_eqI iffI)
      fix k assume "k \<in> (\<lambda>s. the (fmlookup (sessTopic h) s)) ` {s. \<exists>k. publishes h s k}"
      then obtain s where "publishes h s k" by (auto simp: publishes_def)
      then show "k \<in> published_names r"
        using sessions_okD(2) [OF assms] by (fastforce simp: published_names_def)
    next
      fix k assume "k \<in> published_names r"
      then obtain s where "publishes h s k"
        using sessions_okD(3) [OF assms] by (fastforce simp: published_names_def)
      then show "k \<in> (\<lambda>s. the (fmlookup (sessTopic h) s)) ` {s. \<exists>k. publishes h s k}"
        by (force simp: publishes_def)
    qed
  qed
qed

lemma node_publisher_count:
  assumes "node_reach sum64 cfg srv n" and "0 \<le> PublisherQueueSize cfg"
  shows "publisherCount (mgr (n_sys n)) = int (card {s. \<exists>k. publishes (n_handler n) s k})"
    and "0 < MaxPublishers cfg \<Longrightarrow> publisherCount (mgr (n_sys n)) \<le> MaxPublishers cfg"
proof -
  have ok: "sessions_ok (n_handler n) (registry_of (mgr (n_sys n)))"
    and reach: "reach both_disciplines cfg (n_sys n)"
    using node_reach_ok [OF assms] by (simp_all add: node_ok_def)
  note facts = both_reach [OF reach]
  have "publisherCount (mgr (n_sys n)) = active_publishers (mgr (n_sys n))"
    using facts(4) by (simp add: count_exact_def)
  also have "\<dots> = int (card {s. \<exists>k. publishes (n_handler n) s k})"
    by (simp add: card_published_names published_names_sessions [OF ok])
  finally show "publisherCount (mgr (n_sys n)) = int (card {s. \<exists>k. publishes (n_handler n) s k})" .
  show "0 < MaxPublishers cfg \<Longrightarrow> publisherCount (mgr (n_sys n)) \<le> MaxPublishers cfg"
    using mgr_ok_countD(2) [OF facts(3)] facts(5) by simp
qed



section \<open>Well-formed states\<close>

text \<open>C22: Every state a node can reach is well formed.  A topic is stored under its own, valid
  name with the manager's configuration; its inbound queue has the configured capacity, does
  not exceed it, and is closed exactly when the topic is; it has a stream only while it has
  a publisher and a grace timer only while it has none; its dispatcher is parked or gone
  only when no packet waits; each subscriber is stored under its own identifier, with an
  open queue within its capacity.  A session of the tables has a role and a valid topic, and
  a call of \<open>PublishPacket\<close> that has not returned works on a topic that exists.\<close>

theorem node_state_is_well_formed:
  assumes "node_reach sum64 cfg srv n" and "0 \<le> PublisherQueueSize cfg"
  shows "(\<forall>k t. fmlookup (topics (mgr (n_sys n))) k = Some t \<longrightarrow>
        t_name t = k \<and> topicNameRe k \<and> t_cfg t = cfg
      \<and> chan_cap (inch t) = nat (PublisherQueueSize cfg) \<and> length (chan_buf (inch t)) \<le> chan_cap (inch t)
      \<and> (chan_closed (inch t) \<longleftrightarrow> closed t)
      \<and> (stream t \<noteq> None \<longrightarrow> publisher t \<noteq> None) \<and> (graceTimer t \<noteq> None \<longrightarrow> publisher t = None)
      \<and> (dispatcher t = Parked \<longrightarrow> chan_buf (inch t) = [] \<and> \<not> closed t)
      \<and> (dispatcher t = Exited \<longrightarrow> chan_buf (inch t) = [] \<and> closed t)
      \<and> (\<forall>i s. fmlookup (subscribers t) i = Some s \<longrightarrow> sub_id s = i \<and> \<not> chan_closed (queue s)
          \<and> length (chan_buf (queue s)) \<le> chan_cap (queue s)))
    \<and> (\<forall>s k. fmlookup (sessTopic (n_handler n)) s = Some k \<longrightarrow>
        topicNameRe k \<and> fmlookup (sessIsPub (n_handler n)) s \<noteq> None)
    \<and> (\<forall>i k pkt st. calls (n_sys n) i = Some (k, pkt, st) \<longrightarrow> \<not> idle (calls (n_sys n) i) \<longrightarrow>
        k \<in> fmdom' (topics (mgr (n_sys n))))"
proof -
  have ok: "sessions_ok (n_handler n) (registry_of (mgr (n_sys n)))"
    and reach: "reach both_disciplines cfg (n_sys n)"
    using node_reach_ok [OF assms] by (simp_all add: node_ok_def)
  have mgr: "mgr_ok (mgr (n_sys n))" and cfg: "m_cfg (mgr (n_sys n)) = cfg"
    using both_reach [OF reach] by simp_all
  have topic: "t_name t = k" "topicNameRe k" "t_cfg t = cfg" "topic_ok t"
      "chan_cap (inch t) = nat (PublisherQueueSize cfg)" "stream t \<noteq> None \<longrightarrow> publisher t \<noteq> None"
      "graceTimer t \<noteq> None \<longrightarrow> publisher t = None"
    if t: "fmlookup (topics (mgr (n_sys n))) k = Some t" for k t
    using mgr_okD [OF mgr t] sessions_okD(5) [OF ok, of k] node_reach_streams [OF assms] t cfg
    by (auto simp: registry_of_def streams_ok_def topic_ok_def)
  have "\<forall>s k. fmlookup (sessTopic (n_handler n)) s = Some k \<longrightarrow>
      topicNameRe k \<and> fmlookup (sessIsPub (n_handler n)) s \<noteq> None"
    using sessions_okD(1) [OF ok] by (fastforce simp: publishes_def subscribes_def)
  moreover have "\<forall>i k pkt st. calls (n_sys n) i = Some (k, pkt, st) \<longrightarrow> \<not> idle (calls (n_sys n) i) \<longrightarrow>
      k \<in> fmdom' (topics (mgr (n_sys n)))"
    using reach_ok [OF reach] unfolding sys_ok_def by blast
  ultimately show ?thesis
    using topic by (simp add: topic_ok_def subs_ok_def sub_ok_def chan_ok_def)
qed

theorem node_state_is_well_formed_witness:
  "\<exists>n t. run_requests byte_sum one_reader (init_node demo_config demo_server) = Some n
     \<and> fmlookup (topics (mgr (n_sys n))) ''cam'' = Some t \<and> t_name t = ''cam'' \<and> graceTimer t = None"
proof -
  obtain n t p where n: "run_requests byte_sum one_reader (init_node demo_config demo_server) = Some n"
    and t: "fmlookup (topics (mgr (n_sys n))) ''cam'' = Some t" "publisher t = Some p"
    by (rule one_reader_run)
  have "0 \<le> PublisherQueueSize demo_config" by (simp add: demo_config_def)
  from conjunct1 [OF node_state_is_well_formed [OF run_requests_start [OF n] this]] t(1)
  have "t_name t = ''cam''" "graceTimer t \<noteq> None \<longrightarrow> publisher t = None" by blast+
  with n t show ?thesis by auto
qed

section \<open>Answers\<close>

lemma spec_register_publisher_known:
  "spec_register_publisher cfg n p r = (None, r') \<Longrightarrow> r' n \<noteq> None"
  by (auto simp: spec_register_publisher_def split: if_splits option.splits)

text \<open>C24: Every ANNOUNCE is answered: 503 when another node owns the topic, 400 when the
  name is not valid or the registry refuses the publisher (limit reached, or the topic has
  a publisher), 200 otherwise; only in the last case do the session tables and the topic
  change: the session publishes the topic, and readers get the announced stream.\<close>

theorem OnAnnounce_answer:
  assumes "node_reach sum64 cfg srv n" and "0 \<le> PublisherQueueSize cfg"
    and "name = TrimPrefix path ''/''"
  shows "\<exists>resp h' m' w'. OnAnnounce sum64 sess path st (n_handler n) (mgr (n_sys n)) (wld (n_sys n))
      = Some (resp, h', m', w')
    \<and> StatusCode resp =
        (if owner_is_remote sum64 (n_handler n) name then StatusServiceUnavailable
         else if \<not> topicNameRe name
           \<or> fst (spec_register_publisher cfg name (show_ptr sess) (registry_of (mgr (n_sys n)))) \<noteq> None
         then StatusBadRequest else StatusOK)
    \<and> (StatusCode resp = StatusOK \<longrightarrow> publishes h' sess name \<and> GetTopicStream name m' = Some st
        \<and> registry_of m'
            = snd (spec_register_publisher cfg name (show_ptr sess) (registry_of (mgr (n_sys n)))))
    \<and> (StatusCode resp \<noteq> StatusOK \<longrightarrow> h' = n_handler n \<and> registry_of m' = registry_of (mgr (n_sys n)))"
proof -
  have reach: "reach both_disciplines cfg (n_sys n)"
    using node_reach_ok [OF assms(1,2)] by (simp add: node_ok_def)
  note facts = both_reach [OF reach]
  obtain pub w1 where pub: "NewPublisherSession (show_ptr sess) (wld (n_sys n)) = (pub, w1)" by fastforce
  have id: "pub_id pub = show_ptr sess" using NewPublisherSession_id [OF pub] by simp
  obtain e m1 w2 where reg: "RegisterPublisher name pub (mgr (n_sys n)) w1 = Some (e, m1, w2)"
    and spec: "spec_register_publisher cfg name (show_ptr sess) (registry_of (mgr (n_sys n)))
      = (e, registry_of m1)"
    using RegisterPublisher_refines [OF facts(4), of name pub w1] assms(2) facts(5) id by auto
  have same: "registry_of m1 = registry_of (mgr (n_sys n))" if "e \<noteq> None"
    using spec that by (auto simp: spec_register_publisher_def split: if_splits option.splits)
  have known: "\<exists>t. fmlookup (topics m1) name = Some t" if "e = None"
    using spec_register_publisher_known [of cfg name "show_ptr sess"] spec that
    by (fastforce simp: registry_of_def)
  have "GetTopicStream name (SetTopicStream name (Some st) m1) = Some st" if "e = None"
    using known [OF that] by (auto simp: GetTopicStream_def SetTopicStream_def Stream_def)
  moreover have "registry_of (SetTopicStream name (Some st) m1) = registry_of m1"
    by (simp add: SetTopicStream_def registry_of_topic_update split: option.split)
  ultimately show ?thesis
    using pub reg spec same
    by (cases e) (auto simp: OnAnnounce_def Let_def assms(3) respond_def publishes_upd)
qed

theorem OnAnnounce_answer_witness:
  "\<exists>resp h' m' w'. OnAnnounce byte_sum 3 ''/cam'' 7 (n_handler (init_node demo_config demo_server))
      (mgr (n_sys (init_node demo_config demo_server))) (wld (n_sys (init_node demo_config demo_server)))
      = Some (resp, h', m', w')
    \<and> StatusCode resp = StatusOK \<and> publishes h' 3 ''cam'' \<and> GetTopicStream ''cam'' m' = Some 7"
proof -
  let ?n = "init_node demo_config demo_server"
  have reach: "node_reach byte_sum demo_config demo_server ?n" by (rule node_reach_init)
  have size: "0 \<le> PublisherQueueSize demo_config" by (simp add: demo_config_def)
  have name: "''cam'' = TrimPrefix ''/cam'' ''/''" by (simp add: TrimPrefix_def HasPrefix_def)
  have "fst (spec_register_publisher demo_config ''cam'' (show_ptr 3) (registry_of (mgr (n_sys ?n)))) = None"
    by (simp add: init_node_def start_node_def init_sys_def start_sys_def registry_of_NewManager spec_register_publisher_def
        published_names_def demo_config_def)
  moreover have "\<not> owner_is_remote byte_sum (n_handler ?n) ''cam''" and "topicNameRe ''cam''"
    by (simp_all add: server_eval)
  ultimately show ?thesis
    using OnAnnounce_answer [OF reach size name, of 3 7] by auto
qed

section \<open>Closing a session\<close>

lemma OnAnnounce_OK:
  assumes "OnAnnounce sum64 sess path st h m w = Some (resp, h', m', w')" and "StatusCode resp = StatusOK"
  obtains pub w1 m1 w2 where "topicNameRe (TrimPrefix path ''/'')" and "pub_id pub = show_ptr sess"
    and "RegisterPublisher (TrimPrefix path ''/'') pub m w1 = Some (None, m1, w2)"
    and "m' = SetTopicStream (TrimPrefix path ''/'') (Some st) m1"
    and "h' = h\<lparr>sessTopic := fmupd sess (TrimPrefix path ''/'') (sessTopic h),
                sessIsPub := fmupd sess True (sessIsPub h)\<rparr>"
proof -
  obtain pub w1 where pub: "NewPublisherSession (show_ptr sess) w = (pub, w1)" by fastforce
  then have "pub_id pub = show_ptr sess" using NewPublisherSession_id by simp
  with assms pub show ?thesis
    by (auto simp: OnAnnounce_def Let_def respond_def split: if_splits option.splits intro: that)
qed

text \<open>The subscribers a topic has, none when it does not exist.\<close>

definition readers_of :: "registry \<Rightarrow> string \<Rightarrow> string set" where
  "readers_of r k = (case r k of None \<Rightarrow> {} | Some (_, ss) \<Rightarrow> ss)"

lemma SetTopicStream_count [simp]: "publisherCount (SetTopicStream n st m) = publisherCount m"
  by (simp add: SetTopicStream_def set_topic_def split: option.split)

lemma SetTopicStream_registry [simp]: "registry_of (SetTopicStream n st m) = registry_of m"
  by (simp add: SetTopicStream_def registry_of_topic_update split: option.split)

text \<open>C25: Closing a session undoes its ANNOUNCE: the session table, the publisher count and
  every other topic are as before; the topic keeps its readers, has no publisher and no
  stream, and may be announced again.\<close>

theorem close_undoes_announce:
  assumes "node_reach sum64 cfg srv n" and "0 \<le> PublisherQueueSize cfg"
    and "fmlookup (sessTopic (n_handler n)) sess = None"
    and "OnAnnounce sum64 sess path st (n_handler n) (mgr (n_sys n)) (wld (n_sys n)) = Some (resp, h1, m1, w1)"
    and "StatusCode resp = StatusOK" and "OnSessionClose sess h1 m1 w2 = (h2, m2, w3)"
  shows "sessTopic h2 = sessTopic (n_handler n)
    \<and> registry_of m2 = (registry_of (mgr (n_sys n)))
        (TrimPrefix path ''/'' \<mapsto> (None, readers_of (registry_of (mgr (n_sys n))) (TrimPrefix path ''/'')))
    \<and> GetTopicStream (TrimPrefix path ''/'') m2 = None
    \<and> publisherCount m2 = publisherCount (mgr (n_sys n))"
proof -
  let ?k = "TrimPrefix path ''/''" and ?m = "mgr (n_sys n)" and ?h = "n_handler n"
  have reach: "reach both_disciplines cfg (n_sys n)"
    using node_reach_ok [OF assms(1,2)] by (simp add: node_ok_def)
  note facts = both_reach [OF reach]
  from OnAnnounce_OK [OF assms(4,5)] obtain pub v1 m0 v2 where name: "topicNameRe ?k"
    and id: "pub_id pub = show_ptr sess" and reg: "RegisterPublisher ?k pub ?m v1 = Some (None, m0, v2)"
    and m1: "m1 = SetTopicStream ?k (Some st) m0"
    and h1: "h1 = ?h\<lparr>sessTopic := fmupd sess ?k (sessTopic ?h), sessIsPub := fmupd sess True (sessIsPub ?h)\<rparr>" .
  have spec: "spec_register_publisher cfg ?k (show_ptr sess) (registry_of ?m) = (None, registry_of m0)"
    using RegisterPublisher_refines [OF facts(4), of ?k pub v1] assms(2) facts(5) id reg by auto
  then have r0: "registry_of m0 = (registry_of ?m)(?k \<mapsto> (Some (show_ptr sess), readers_of (registry_of ?m) ?k))"
    by (auto simp: spec_register_publisher_def readers_of_def split: if_splits option.splits)
  have count: "publisherCount m0 = publisherCount ?m + 1" and "0 \<le> publisherCount ?m"
    using reg mgr_ok_countD(1) [OF facts(3)] by (auto simp: RegisterPublisher_eq split: if_splits)
  have "?k \<noteq> []" using name by (auto simp: topicNameRe_def)
  with assms(6) have h2: "h2 = forget_session sess h1"
    and un: "UnregisterPublisher ?k m1 w2 = (m2, w3)"
    by (auto simp: OnSessionClose_def session_topic_def session_is_pub_def h1 Let_def split: prod.splits)
  have "sessTopic h2 = sessTopic ?h"
    unfolding h2 h1 using assms(3) by (intro fmap_ext) auto
  moreover have r2: "registry_of m2 = spec_unregister_publisher ?k (registry_of m0)"
    using UnregisterPublisher_refines [of ?k m1 w2] un by (simp add: m1)
  moreover obtain t where t: "fmlookup (topics m1) ?k = Some t"
  proof -
    have "registry_of m1 ?k \<noteq> None" by (simp add: m1 r0)
    then show ?thesis using that by (auto simp: registry_of_def)
  qed
  moreover have "GetTopicStream ?k m2 = None" "publisherCount m2 = publisherCount ?m"
  proof -
    obtain p where p: "publisher t = Some p"
      using fun_cong [OF r0, of ?k] t by (auto simp: m1 registry_of_def topic_entry_def
          SetTopicStream_def split: option.splits)
    then have "stream (fst (RemovePublisher t w2)) = None" by (simp add: RemovePublisher_def Let_def)
    with UnregisterPublisher_Some(1,3) [OF t, of w2] un count \<open>0 \<le> publisherCount ?m\<close>
    show "GetTopicStream ?k m2 = None" "publisherCount m2 = publisherCount ?m"
      by (auto simp: GetTopicStream_def Stream_def m1)
  qed
  ultimately show ?thesis by (simp add: r0 spec_unregister_publisher_def)
qed

theorem close_undoes_announce_witness:
  "\<exists>n resp h1 m1 w1 h2 m2 w3.
     run_requests byte_sum one_reader (init_node demo_config demo_server) = Some n
     \<and> OnAnnounce byte_sum 5 ''/door'' 8 (n_handler n) (mgr (n_sys n)) (wld (n_sys n))
         = Some (resp, h1, m1, w1)
     \<and> OnSessionClose 5 h1 m1 w1 = (h2, m2, w3) \<and> sessTopic h2 = sessTopic (n_handler n)
     \<and> publisherCount m1 = 2 \<and> publisherCount m2 = 1"
proof -
  obtain n resp h1 m1 w1 where n: "run_requests byte_sum one_reader (init_node demo_config demo_server) = Some n"
    and call: "OnAnnounce byte_sum 5 ''/door'' 8 (n_handler n) (mgr (n_sys n)) (wld (n_sys n))
         = Some (resp, h1, m1, w1)" "StatusCode resp = StatusOK"
    and new: "fmlookup (sessTopic (n_handler n)) 5 = None"
    and counts: "publisherCount m1 = 2" "publisherCount (mgr (n_sys n)) = 1"
    by (simp add: one_reader_def server_eval run_eval)
  obtain h2 m2 w3 where close: "OnSessionClose 5 h1 m1 w1 = (h2, m2, w3)" using prod_cases3 by blast
  have "sessTopic h2 = sessTopic (n_handler n) \<and> publisherCount m2 = publisherCount (mgr (n_sys n))"
    using close_undoes_announce [OF run_requests_start [OF n] _ new call close]
    by (simp add: demo_config_def)
  with n call close counts show ?thesis by metis
qed

section \<open>Readers\<close>



section \<open>Packets\<close>

text \<open>C27: A packet of a publishing session is counted twice as received: the handler counts
  it, and \<open>PublishPacket\<close> counts it again; it is also counted as dispatched before the
  dispatcher of the topic, which counts it once more, has seen it.\<close>

theorem packet_counted_twice:
  assumes "publishes h sess name" and "name \<noteq> []"
    and "fmlookup (topics m) name = Some t" and "stream t = Some st" and "queueing t"
  shows "\<exists>m' w'. OnPacketRTP sess track (Some raw) h m w = Some (Some st, m', w')
    \<and> promPacketsReceived (wmetrics w') = promPacketsReceived (wmetrics w) + 2
    \<and> promPacketsDispatched (wmetrics w') = promPacketsDispatched (wmetrics w) + 1
    \<and> (\<exists>t'. fmlookup (topics m') name = Some t' \<and> chan_buf (inch t')
          = lastn (chan_cap (inch t)) (chan_buf (inch t) @ [\<lparr>Track = track, Raw = raw\<rparr>]))"
proof -
  let ?w = "with_metrics IncPacketsDispatched (with_metrics IncPacketsReceived w)"
  have "packet_in sess track (Some raw) h m w = (Some st, Some (name, \<lparr>Track = track, Raw = raw\<rparr>), ?w)"
    using assms by (simp add: packet_in_def session_topic_def publishes_def GetTopicStream_def Stream_def)
  then show ?thesis
    using PublishPacket_queueing [OF assms(3,5), of "\<lparr>Track = track, Raw = raw\<rparr>" ?w]
      publish_selects_queueing(3) [OF assms(5), of ?w "\<lparr>Track = track, Raw = raw\<rparr>"]
    by (simp add: OnPacketRTP_def metric_defs set_topic_def)
qed

theorem packet_counted_twice_witness:
  "\<exists>n m' w'. run_requests byte_sum one_reader (init_node demo_config demo_server) = Some n
     \<and> OnPacketRTP 1 0 (Some [96]) (n_handler n) (mgr (n_sys n)) (wld (n_sys n)) = Some (Some 7, m', w')
     \<and> promPacketsReceived (wmetrics w') = promPacketsReceived (wmetrics (wld (n_sys n))) + 2"
proof -
  obtain n t p where n: "run_requests byte_sum one_reader (init_node demo_config demo_server) = Some n"
    and t: "fmlookup (topics (mgr (n_sys n))) ''cam'' = Some t" "stream t = Some 7"
    and pub: "publishes (n_handler n) 1 ''cam''"
    and ready: "\<not> closed t" "dispatcher t = Looping"
    by (simp add: one_reader_def server_eval run_eval publishes_def)
  have reach: "reach both_disciplines demo_config (n_sys n)"
    using node_reach_ok [OF run_requests_start [OF n]] by (simp add: node_ok_def demo_config_def)
  have "queueing t"
    using mgr_okD(2,4) [OF both_reach(3) [OF reach] t(1)] both_reach(5) [OF reach] ready
    by (simp add: queueing_def demo_config_def)
  from packet_counted_twice [OF pub _ t this, of 0 "[96]" "wld (n_sys n)"] n show ?thesis by auto
qed

end
