(* ===== verification/Proxy.thy ===== *)
theory Proxy
  imports Server
begin

text \<open>
  \<^verbatim>\<open>pkg/rtspsrv/proxy_listener.go\<close> and \<^verbatim>\<open>buffered_conn.go\<close>: the listener that looks at
  the first request of a connection and either hands the connection over to the local
  RTSP server or forwards it to the node that owns the topic.

  A connection is what a reader sees of it: the non-empty segments in which its bytes
  arrive.  A \<open>Read\<close> takes bytes of the first segment only; with no segment left it fails
  (the deadline or the end of the stream).
\<close>

type_synonym segments = "string list"

abbreviation newline :: char where "newline \<equiv> CHR 0x0A"

definition blank_line :: string where
  "blank_line = [CHR 0x0D, CHR 0x0A, CHR 0x0D, CHR 0x0A]"

fun conn_read :: "nat \<Rightarrow> segments \<Rightarrow> string \<times> segments" where
  "conn_read n [] = ([], [])"
| "conn_read n (seg # segs) = (take n seg, if length seg \<le> n then segs else drop n seg # segs)"

section \<open>Sources of bytes\<close>

text \<open>
  What the RTSP library needs of a connection: a read takes the next bytes, at most as
  many as asked for, and some when there are any.
\<close>

locale byte_source =
  fixes rd :: "nat \<Rightarrow> 's \<Rightarrow> string \<times> 's"
    and content :: "'s \<Rightarrow> string"
    and ok :: "'s \<Rightarrow> bool"
  assumes conserve: "ok s \<Longrightarrow> fst (rd n s) @ content (snd (rd n s)) = content s"
    and bounded: "ok s \<Longrightarrow> length (fst (rd n s)) \<le> n"
    and progress: "ok s \<Longrightarrow> 0 < n \<Longrightarrow> content s \<noteq> [] \<Longrightarrow> fst (rd n s) \<noteq> []"
    and keeps: "ok s \<Longrightarrow> ok (snd (rd n s))"

fun reads :: "(nat \<Rightarrow> 's \<Rightarrow> string \<times> 's) \<Rightarrow> nat list \<Rightarrow> 's \<Rightarrow> string \<times> 's" where
  "reads rd [] s = ([], s)"
| "reads rd (n # ns) s =
     (case rd n s of (b, s') \<Rightarrow> (case reads rd ns s' of (bs, s'') \<Rightarrow> (b @ bs, s'')))"

context byte_source
begin

lemma reads_conserve:
  "ok s \<Longrightarrow> fst (reads rd ns s) @ content (snd (reads rd ns s)) = content s"
proof (induction ns arbitrary: s)
  case (Cons n ns)
  have "fst (rd n s) @ content (snd (rd n s)) = content s" using Cons.prems by (rule conserve)
  with Cons.IH [OF keeps [OF Cons.prems, of n]] show ?case
    by (auto simp: case_prod_unfold)
qed simp

lemma reads_all:
  "ok s \<Longrightarrow> \<forall>n \<in> set ns. 0 < n \<Longrightarrow> length (content s) \<le> length ns \<Longrightarrow>
    fst (reads rd ns s) = content s"
proof (induction ns arbitrary: s)
  case (Cons n ns)
  let ?s' = "snd (rd n s)"
  have split: "fst (rd n s) @ content ?s' = content s" using Cons.prems(1) by (rule conserve)
  have "length (content ?s') \<le> length ns"
  proof (cases "content s = []")
    case False
    then have "fst (rd n s) \<noteq> []" using Cons.prems progress by simp
    moreover have "length (fst (rd n s)) + length (content ?s') = length (content s)"
      using arg_cong [OF split, of length] by simp
    ultimately show ?thesis using Cons.prems(3) by (cases "fst (rd n s)") auto
  qed (use split in auto)
  with Cons.IH [OF keeps [OF Cons.prems(1), of n]] Cons.prems(2)
  have "fst (reads rd ns ?s') = content ?s'" by simp
  with split show ?case by (simp add: case_prod_unfold)
qed simp

end

interpretation conn: byte_source conn_read concat "\<lambda>segs. [] \<notin> set segs"
proof
  fix segs :: segments and n
  assume "[] \<notin> set segs"
  then show "fst (conn_read n segs) @ concat (snd (conn_read n segs)) = concat segs"
    and "length (fst (conn_read n segs)) \<le> n"
    and "0 < n \<Longrightarrow> concat segs \<noteq> [] \<Longrightarrow> fst (conn_read n segs) \<noteq> []"
    and "[] \<notin> set (snd (conn_read n segs))"
    by (cases segs; auto)+
qed

section \<open>The buffered connection\<close>

record buffered_conn =
  bc_conn :: segments
  bc_buf :: string

definition bc_read :: "nat \<Rightarrow> buffered_conn \<Rightarrow> string \<times> buffered_conn" where
  "bc_read k b =
     (if 0 < length (bc_buf b)
      then let n = min k (length (bc_buf b)) in
        (take n (bc_buf b), b\<lparr>bc_buf := drop n (bc_buf b)\<rparr>)
      else (case conn_read k (bc_conn b) of (p, c) \<Rightarrow> (p, b\<lparr>bc_conn := c\<rparr>)))"

definition bc_content :: "buffered_conn \<Rightarrow> string" where
  "bc_content b = bc_buf b @ concat (bc_conn b)"

interpretation buffered: byte_source bc_read bc_content "\<lambda>b. [] \<notin> set (bc_conn b)"
proof
  fix b :: buffered_conn and n
  assume ok: "[] \<notin> set (bc_conn b)"
  show "fst (bc_read n b) @ bc_content (snd (bc_read n b)) = bc_content b"
    using conn.conserve [OF ok, of n]
    by (auto simp: bc_read_def bc_content_def Let_def case_prod_unfold)
  show "length (fst (bc_read n b)) \<le> n"
    using conn.bounded [OF ok, of n] by (auto simp: bc_read_def Let_def case_prod_unfold)
  show "[] \<notin> set (bc_conn (snd (bc_read n b)))"
    using ok conn.keeps [OF ok, of n] by (auto simp: bc_read_def Let_def case_prod_unfold)
  show "fst (bc_read n b) \<noteq> []" if "0 < n" and "bc_content b \<noteq> []"
    using that conn.progress [OF ok, of n]
    by (auto simp: bc_read_def bc_content_def Let_def case_prod_unfold)
qed

section \<open>Reading the head of a request\<close>

text \<open>
  \<open>bufio.Reader.ReadBytes\<close>: \<open>acc\<close> is what earlier full buffers held, \<open>pend\<close> the bytes in
  the buffer of 4096.  \<open>None\<close> is the error of the connection; the incomplete line that
  \<open>ReadBytes\<close> returns with it is ignored by the caller.
\<close>

function read_bytes :: "string \<Rightarrow> string \<Rightarrow> segments \<Rightarrow> string option \<times> string \<times> segments" where
  "read_bytes acc pend segs = (case IndexByte newline pend of
       Some i \<Rightarrow> (Some (acc @ take (Suc i) pend), drop (Suc i) pend, segs)
     | None \<Rightarrow>
         if 4096 \<le> length pend then read_bytes (acc @ pend) [] segs
         else (case segs of
             [] \<Rightarrow> (None, [], [])
           | _ # _ \<Rightarrow> (case conn_read (4096 - length pend) segs of
                 (b, segs') \<Rightarrow> read_bytes acc (pend @ b) segs')))"
  by pat_completeness auto

termination
  by (relation "measures [\<lambda>(acc, pend, segs). length (concat segs) + length segs,
        \<lambda>(acc, pend, segs). length pend]") (auto split: if_splits)

declare read_bytes.simps [simp del]

definition a_line :: "string \<Rightarrow> bool" where
  "a_line l \<longleftrightarrow> (\<exists>k. l = k @ [newline] \<and> newline \<notin> set k)"

lemma a_line_not_Nil: "\<not> a_line []"
  by (simp add: a_line_def)

lemma IndexByte_NoneI: "c \<notin> set s \<Longrightarrow> IndexByte c s = None"
  by simp

lemma IndexByte_Some_line:
  "IndexByte c s = Some i \<Longrightarrow> \<exists>k. take (Suc i) s = k @ [c] \<and> c \<notin> set k \<and> i < length s"
proof (induction s arbitrary: i)
  case (Cons x s)
  show ?case
  proof (cases "x = c")
    case False
    with Cons.prems obtain j where j: "IndexByte c s = Some j" "i = Suc j" by auto
    from Cons.IH [OF j(1)] obtain k where "take (Suc j) s = k @ [c]" "c \<notin> set k" "j < length s" by blast
    with False j(2) show ?thesis by (intro exI [of _ "x # k"]) auto
  qed (use Cons.prems in auto)
qed simp

lemma conn_read_concat:
  "conn_read n segs = (b, segs') \<Longrightarrow> b @ concat segs' = concat segs \<and> ([] \<notin> set segs \<longrightarrow> [] \<notin> set segs')"
  by (cases segs) (auto split: if_splits)

lemma read_bytes_spec:
  "case read_bytes acc pend segs of
      (None, p, s) \<Rightarrow> newline \<notin> set (pend @ concat segs) \<and> p = [] \<and> s = []
    | (Some line, p, s) \<Rightarrow> ([] \<notin> set segs \<longrightarrow> [] \<notin> set s) \<and>
        (\<exists>l. line = acc @ l \<and> a_line l \<and> l @ p @ concat s = pend @ concat segs)"
proof (induction acc pend segs rule: read_bytes.induct)
  case (1 acc pend segs)
  show ?case
  proof (cases "IndexByte newline pend")
    case (Some i)
    with IndexByte_Some_line [OF Some] show ?thesis
      by (subst read_bytes.simps) (auto simp: a_line_def)
  next
    case None
    then have no: "newline \<notin> set pend" by simp
    consider (full) "4096 \<le> length pend" | (stop) "length pend < 4096" "segs = []"
      | (fill) seg rest where "length pend < 4096" "segs = seg # rest"
      by (cases segs) fastforce+
    then show ?thesis
    proof cases
      case full
      have eq: "read_bytes acc pend segs = read_bytes (acc @ pend) [] segs"
        using no full by (subst read_bytes.simps) (simp add: IndexByte_NoneI)
      have prep: "a_line l \<Longrightarrow> a_line (pend @ l)" for l using no by (auto simp: a_line_def)
      from 1(1) [OF None full] show ?thesis
        unfolding eq using no prep by (auto split: prod.split option.split)
    next
      case stop
      then show ?thesis using no by (subst read_bytes.simps) (simp add: IndexByte_NoneI)
    next
      case fill
      obtain b s' where r: "conn_read (4096 - length pend) segs = (b, s')" by fastforce
      have eq: "read_bytes acc pend segs = read_bytes acc (pend @ b) s'"
        using no fill r by (subst read_bytes.simps) (simp add: IndexByte_NoneI)
      have le: "\<not> 4096 \<le> length pend" using fill(1) by simp
      from 1(2) [OF None le fill(2) r [symmetric]] conn_read_concat [OF r]
      show ?thesis unfolding eq by (auto split: prod.split option.split)
    qed
  qed
qed

lemma read_bytes_cases:
  obtains (line) l p s where "read_bytes [] pend segs = (Some l, p, s)" "a_line l"
      "l @ p @ concat s = pend @ concat segs" "[] \<notin> set segs \<longrightarrow> [] \<notin> set s"
    | (failed) "read_bytes [] pend segs = (None, [], [])" "newline \<notin> set (pend @ concat segs)"
  using read_bytes_spec [where acc = "[]" and pend = pend and segs = segs] that
  by (auto split: prod.splits option.splits)

lemma read_bytes_a_line: "read_bytes [] pend segs = (Some l, p, s) \<Longrightarrow> a_line l"
  by (cases rule: read_bytes_cases [of pend segs]) auto

text \<open>The loop of \<open>Accept\<close>; the result is the buffer, what the reader still holds, and the
  segments not yet read.\<close>

function peek :: "string \<Rightarrow> string \<Rightarrow> segments \<Rightarrow> string \<times> string \<times> segments" where
  "peek buf pend segs =
     (if length buf < 8192
      then (case read_bytes [] pend segs of
          (None, pend', segs') \<Rightarrow> (buf, pend', segs')
        | (Some line, pend', segs') \<Rightarrow>
            (let buf' = buf @ line in
             if HasSuffix buf' blank_line then (buf', pend', segs') else peek buf' pend' segs'))
      else (buf, pend, segs))"
  by pat_completeness auto

termination
  by (relation "measure (\<lambda>(buf, pend, segs). 8192 - length buf)")
    (auto dest!: sym [of _ "read_bytes _ _ _"] read_bytes_a_line simp: a_line_def)

declare peek.simps [simp del]

text \<open>The same on the whole stream of bytes, without segments and buffers.\<close>

function head_lines :: "string \<Rightarrow> string \<Rightarrow> string" where
  "head_lines buf s =
     (if length buf < 8192
      then (case IndexByte newline s of
          None \<Rightarrow> buf
        | Some i \<Rightarrow> (let buf' = buf @ take (Suc i) s in
            if HasSuffix buf' blank_line then buf' else head_lines buf' (drop (Suc i) s)))
      else buf)"
  by pat_completeness auto

termination
  by (relation "measure (\<lambda>(buf, s). length s)") (auto dest!: IndexByte_Some_line)

declare head_lines.simps [simp del]

lemma head_lines_line:
  assumes "a_line l" and "length buf < 8192"
  shows "head_lines buf (l @ s) = (if HasSuffix (buf @ l) blank_line then buf @ l else head_lines (buf @ l) s)"
proof -
  obtain k where l: "l = k @ [newline]" "newline \<notin> set k" using assms(1) by (auto simp: a_line_def)
  then have "IndexByte newline (l @ s) = Some (length k)"
    using IndexByte_append [of newline k s] by simp
  with l assms(2) show ?thesis by (subst head_lines.simps) (simp add: Let_def)
qed

lemma peek_cases:
  obtains (enough) "8192 \<le> length buf" "peek buf pend segs = (buf, pend, segs)"
    | (failed) "length buf < 8192" "peek buf pend segs = (buf, [], [])" "newline \<notin> set (pend @ concat segs)"
    | (line) l p s where "length buf < 8192" "read_bytes [] pend segs = (Some l, p, s)" "a_line l"
        "l @ p @ concat s = pend @ concat segs" "[] \<notin> set segs \<longrightarrow> [] \<notin> set s"
        "peek buf pend segs = (if HasSuffix (buf @ l) blank_line then (buf @ l, p, s) else peek (buf @ l) p s)"
proof (cases "length buf < 8192")
  case True
  show ?thesis
  proof (cases rule: read_bytes_cases [of pend segs])
    case (line l p s)
    then show ?thesis using True by (intro that(3)) (simp_all add: peek.simps [of buf pend segs] Let_def)
  next
    case failed
    then show ?thesis using True by (intro that(2)) (simp_all add: peek.simps [of buf pend segs])
  qed
qed (simp add: that peek.simps [of buf pend segs])

lemma peek_head: "fst (peek buf pend segs) = head_lines buf (pend @ concat segs)"
proof (induction buf pend segs rule: peek.induct)
  case (1 buf pend segs)
  show ?case
  proof (cases rule: peek_cases [of buf pend segs])
    case (line l p s)
    then show ?thesis
      using head_lines_line [OF line(3,1), of "p @ concat s"] 1 [OF line(1) line(2) [symmetric] refl refl refl]
      by simp
  qed (simp_all add: head_lines.simps [of buf] IndexByte_NoneI)
qed

lemma peek_conserve:
  "(\<exists>lost. fst (peek buf pend segs) @ lost @ concat (snd (snd (peek buf pend segs))) = buf @ pend @ concat segs)
   \<and> ([] \<notin> set segs \<longrightarrow> [] \<notin> set (snd (snd (peek buf pend segs))))"
proof (induction buf pend segs rule: peek.induct)
  case (1 buf pend segs)
  show ?case
  proof (cases rule: peek_cases [of buf pend segs])
    case (line l p s)
    show ?thesis
    proof (cases "HasSuffix (buf @ l) blank_line")
      case True
      with line show ?thesis by (auto intro!: exI [of _ p])
    next
      case False
      with line 1 [OF line(1) line(2) [symmetric] refl refl refl] show ?thesis by simp
    qed
  qed simp_all
qed

text \<open>A request head: it ends with the first blank line, within the limit.\<close>

definition complete_head :: "string \<Rightarrow> bool" where
  "complete_head req \<longleftrightarrow> HasSuffix req blank_line \<and> length req \<le> 8192
     \<and> (\<forall>k < length req. \<not> HasSuffix (take k req) blank_line)"

lemma HasSuffix_iff: "HasSuffix s p \<longleftrightarrow> (\<exists>r. s = r @ p)"
proof -
  have "HasSuffix s p \<longleftrightarrow> (\<exists>r. rev s = rev p @ rev r)"
    by (metis HasPrefix_iff HasSuffix_def rev_rev_ident)
  then show ?thesis by (metis rev_append rev_rev_ident)
qed

lemma first_line:
  assumes "c \<in> set s"
  obtains k t where "s = (k @ [c]) @ t" "c \<notin> set k"
  using split_list_first [OF assms] that by auto

lemma head_lines_complete:
  assumes "complete_head (buf @ s)" and "s \<noteq> []"
  shows "head_lines buf s = buf @ s"
  using assms
proof (induction buf s rule: head_lines.induct)
  case (1 buf s)
  have suffix: "HasSuffix (buf @ s) blank_line" and short: "length buf < 8192"
    using 1(2,3) by (cases s; simp add: complete_head_def)+
  from suffix 1(3) have "last s = newline"
    by (auto simp: HasSuffix_iff blank_line_def dest!: arg_cong [where f = last])
  with 1(3) have "newline \<in> set s" using last_in_set by metis
  then obtain k t where s: "s = (k @ [newline]) @ t" "newline \<notin> set k" by (rule first_line)
  then have line: "a_line (k @ [newline])" by (simp add: a_line_def)
  have idx: "IndexByte newline s = Some (length k)"
    using s IndexByte_append [of newline k t] by simp
  show ?case
  proof (cases "t = []")
    case True
    with suffix s show ?thesis
      using head_lines_line [OF line short, of "[]"] by simp
  next
    case False
    then have "\<not> HasSuffix (buf @ k @ [newline]) blank_line"
      using 1(2) s unfolding complete_head_def
      by (elim conjE allE [of _ "length (buf @ k @ [newline])"]) simp
    moreover from this have "head_lines (buf @ k @ [newline]) t = buf @ s"
      using 1(1) [OF short idx refl] 1(2) False s by simp
    ultimately show ?thesis
      using head_lines_line [OF line short, of t] s by simp
  qed
qed

lemma complete_head_Nil [simp]: "\<not> complete_head []"
  by (simp add: complete_head_def HasSuffix_def HasPrefix_def blank_line_def)

lemma peek_complete:
  assumes "complete_head (concat segs)"
  shows "fst (peek [] [] segs) = concat segs" "concat (snd (snd (peek [] [] segs))) = []"
proof -
  have "concat segs \<noteq> []" using assms by (auto simp del: concat_eq_Nil_conv)
  then show "fst (peek [] [] segs) = concat segs" "concat (snd (snd (peek [] [] segs))) = []"
    using head_lines_complete [of "[]" "concat segs"] assms peek_head [of "[]" "[]" segs]
      peek_conserve [of "[]" "[]" segs] by auto
qed

section \<open>The topic of a request\<close>

definition request_topic :: "(string \<Rightarrow> bool) \<Rightarrow> string \<Rightarrow> string" where
  "request_topic ip_literal b =
     (let firstLineEnd = (case IndexByte newline b of None \<Rightarrow> length b | Some i \<Rightarrow> i);
          firstLine = TrimSpace (take firstLineEnd b);
          parts = SplitN (CHR '' '') 3 firstLine;
          path = (if 2 \<le> length parts
            then let u = parts ! 1 in
              if HasPrefix u ''rtsp://''
              then (case url_path ip_literal u of Some p \<Rightarrow> p | None \<Rightarrow> [])
              else u
            else [])
      in TrimPrefix path ''/'')"

section \<open>Accept\<close>

text \<open>
  One connection of the underlying listener: the segments that arrive before the
  deadline (or the end of the stream), those that arrive later, and whether a dial of
  the owner's address succeeds.
\<close>

record incoming =
  arrived :: segments
  later :: segments
  dial_ok :: bool

record proxy_listener =
  pl_server :: "server option"
  isPublisher :: bool

text \<open>
  What \<open>Accept\<close> did with the connections it did not return: forwarded to an address,
  with the bytes written there so far and the segments still to be copied, or refused
  with a message to the client.
\<close>

datatype proxied = Forwarded string string segments | RefusedWith string

definition unavailable :: string where
  "unavailable = ''RTSP/1.0 503 Service Unavailable'' @ [CHR 0x0D, CHR 0x0A]
     @ ''Server: rtsper-proxy'' @ blank_line"

definition proxy_owner :: "(string \<Rightarrow> 64 word) \<Rightarrow> proxy_listener \<Rightarrow> string \<Rightarrow> string" where
  "proxy_owner sum64 p topic = (case pl_server p of
       None \<Rightarrow> []
     | Some srv \<Rightarrow> (case srv_cluster srv of None \<Rightarrow> [] | Some c \<Rightarrow> Owner sum64 c topic))"

text \<open>Whether the connection is handed over; \<open>None\<close> is the panic of a nil server.\<close>

definition serve_locally :: "proxy_listener \<Rightarrow> string \<Rightarrow> bool option" where
  "serve_locally p owner =
     (if owner = [] then Some True
      else case pl_server p of
        None \<Rightarrow> None
      | Some srv \<Rightarrow> Some (case srv_cluster srv of None \<Rightarrow> True | Some c \<Rightarrow> IsSelf c owner))"

definition target_address :: "proxy_listener \<Rightarrow> server \<Rightarrow> string \<Rightarrow> string" where
  "target_address p srv owner =
     owner @ CHR '':'' # show_int (if isPublisher p then pubPort srv else subPort srv)"

text \<open>One turn of the loop: the connection to return, or what became of it.\<close>

definition accept_one ::
    "(string \<Rightarrow> bool) \<Rightarrow> (string \<Rightarrow> 64 word) \<Rightarrow> proxy_listener \<Rightarrow> incoming \<Rightarrow> world
      \<Rightarrow> ((buffered_conn + proxied) \<times> world) option" where
  "accept_one ip_literal sum64 p c w =
     (case peek [] [] (arrived c) of (b, _, rest) \<Rightarrow>
        let nconn = rest @ later c;
            local_conn = \<lparr>bc_conn = nconn, bc_buf = b\<rparr>
        in if length b = 0 then Some (Inl local_conn, w)
           else let owner = proxy_owner sum64 p (request_topic ip_literal b) in
             (case serve_locally p owner of
                None \<Rightarrow> None
              | Some True \<Rightarrow> Some (Inl local_conn, w)
              | Some False \<Rightarrow> (case pl_server p of
                    None \<Rightarrow> None
                  | Some srv \<Rightarrow>
                      if dial_ok c
                      then Some (Inr (Forwarded (target_address p srv owner) b nconn),
                        with_metrics IncForwardedConnections w)
                      else Some (Inr (RefusedWith unavailable), with_metrics IncForwardFailed w))))"

text \<open>
  The loop, over the results of the underlying \<open>Accept\<close>: \<open>Inl\<close> is an error it reports.
  The result is the error or the connection, the connections dealt with on the way, the
  inputs not used, and the world; \<open>None\<close> when the inputs run out (the call blocks).
\<close>

fun Accept ::
    "(string \<Rightarrow> bool) \<Rightarrow> (string \<Rightarrow> 64 word) \<Rightarrow> proxy_listener \<Rightarrow> ('e + incoming) list \<Rightarrow> world
      \<Rightarrow> (('e + buffered_conn) \<times> proxied list \<times> ('e + incoming) list \<times> world) option" where
  "Accept ip_literal sum64 p [] w = None"
| "Accept ip_literal sum64 p (Inl err # ins) w = Some (Inl err, [], ins, w)"
| "Accept ip_literal sum64 p (Inr c # ins) w = (case accept_one ip_literal sum64 p c w of
       None \<Rightarrow> None
     | Some (Inl conn, w') \<Rightarrow> Some (Inr conn, [], ins, w')
     | Some (Inr fwd, w') \<Rightarrow> (case Accept ip_literal sum64 p ins w' of
           None \<Rightarrow> None
         | Some (res, done, rest, w'') \<Rightarrow> Some (res, fwd # done, rest, w'')))"

text \<open>
  The end of a forwarded connection: each goroutine adds the bytes it has copied.  \<open>up\<close>
  and \<open>down\<close> are what the two copies transferred before they stopped.  The bytes the
  owner and the client have been sent are returned.
\<close>

definition copy_finished ::
    "string \<Rightarrow> string \<Rightarrow> string \<Rightarrow> world \<Rightarrow> string \<times> string \<times> world" where
  "copy_finished written up down w = (written @ up, down,
     with_metrics (AddForwardedBytes (int (length down)))
       (with_metrics (AddForwardedBytes (int (length up))) w))"

end
