(* ===== verification/ProxyTheorems.thy ===== *)
theory ProxyTheorems
  imports Proxy
begin

text \<open>
  The properties of the proxying listener: what it reads does not depend on how the
  bytes arrive, a connection it hands over lost nothing, and a request that is forwarded
  is served where it arrives.
\<close>

section \<open>The head of a request\<close>

text \<open>C28: What the listener reads of a connection before it decides depends only on the bytes
  that arrive, not on how the network cuts them into segments or on the reader's buffer:
  it is the shortest sequence of whole lines that ends with a blank line or has 8192
  bytes, or all whole lines.\<close>

theorem peek_ignores_segmentation:
  "fst (peek [] [] segs) = head_lines [] (concat segs)
   \<and> (concat segs' = concat segs \<longrightarrow> fst (peek [] [] segs') = fst (peek [] [] segs))
   \<and> (\<exists>lost. fst (peek [] [] segs) @ lost @ concat (snd (snd (peek [] [] segs))) = concat segs)"
  using peek_head [of "[]" "[]" segs] peek_head [of "[]" "[]" segs'] peek_conserve [of "[]" "[]" segs]
  by auto

text \<open>A request for the demonstrations, in two segments.\<close>

definition options_head :: string where
  "options_head = ''OPTIONS rtsp://host:9191/cam RTSP/1.0'' @ blank_line"

lemma options_head_complete: "complete_head options_head"
  by code_simp

theorem peek_ignores_segmentation_witness:
  "fst (peek [] [] [take 5 options_head, drop 5 options_head]) = fst (peek [] [] [options_head])"
proof -
  have "concat [take 5 options_head, drop 5 options_head] = concat [options_head]" by simp
  with peek_ignores_segmentation [of "[options_head]" "[take 5 options_head, drop 5 options_head]"]
  show ?thesis by blast
qed

section \<open>The topic of a plain request\<close>

lemma SplitN_three:
  assumes "c \<notin> set a" and "c \<notin> set b"
  shows "SplitN c 3 (a @ c # b @ c # d) = [a, b, d]"
proof -
  have "takeWhile (\<lambda>x. x \<noteq> c) (p @ c # q) = p" "dropWhile (\<lambda>x. x \<noteq> c) (p @ c # q) = c # q"
    if "c \<notin> set p" for p q
    using that by (induction p) auto
  from this [OF assms(1)] this [OF assms(2)] show ?thesis
    by (simp add: eval_nat_numeral)
qed

lemma request_topic_line:
  assumes "verb \<noteq> []" and "list_all graphic verb" and "list_all graphic url"
  shows "request_topic ip (verb @ CHR '' '' # url @ '' RTSP/1.0'' @ CHR 0x0D # newline # rest)
    = TrimPrefix (if HasPrefix url ''rtsp://''
        then (case url_path ip url of Some p \<Rightarrow> p | None \<Rightarrow> []) else url) ''/''"
proof -
  define line where "line = verb @ CHR '' '' # url @ CHR '' '' # ''RTSP/1.0''"
  have no: "c \<notin> set verb \<and> c \<notin> set url" if "\<not> graphic c" for c
    using assms(2,3) that by (auto simp: list_all_iff)
  have ws: "\<not> graphic newline" "\<not> graphic (CHR '' '')" by (simp_all add: graphic_def)
  have eq: "verb @ CHR '' '' # url @ '' RTSP/1.0'' @ CHR 0x0D # newline # rest
      = (line @ [CHR 0x0D]) @ newline # rest"
    by (simp add: line_def)
  have idx: "IndexByte newline ((line @ [CHR 0x0D]) @ newline # rest) = Some (length (line @ [CHR 0x0D]))"
    using no [OF ws(1)] by (intro IndexByte_append) (auto simp: line_def)
  have take: "take (length (line @ [CHR 0x0D])) ((line @ [CHR 0x0D]) @ newline # rest) = line @ [CHR 0x0D]"
    by (metis append_eq_conv_conj)
  have "TrimSpace (line @ [CHR 0x0D]) = line"
    using assms(1,2) by (intro TrimSpace_CR) (auto simp: line_def graphic_def list_all_iff)
  moreover have "SplitN (CHR '' '') 3 line = [verb, url, ''RTSP/1.0'']"
    unfolding line_def using no [OF ws(2)] by (intro SplitN_three) simp_all
  ultimately show ?thesis
    unfolding request_topic_def Let_def eq idx option.case take by simp
qed

lemma plain_graphic: "plain s \<Longrightarrow> list_all graphic s"
  by (auto simp: plain_def list_all_iff is_alnum_def byte_of_def graphic_def Let_def)

text \<open>The name in the path of an URL, and a bare path.\<close>

lemma request_topic_plain:
  assumes "verb \<noteq> []" and "list_all graphic verb" and "plain host" and "plain topic"
    and "list_all (\<lambda>c. 48 \<le> byte_of c \<and> byte_of c \<le> 57) port"
  shows "request_topic ip (verb @ CHR '' '' # (''rtsp://'' @ host @ CHR '':'' # port @ CHR ''/'' # topic)
      @ '' RTSP/1.0'' @ CHR 0x0D # newline # rest) = topic" (is "?url")
    and "request_topic ip (verb @ CHR '' '' # (CHR ''/'' # topic)
      @ '' RTSP/1.0'' @ CHR 0x0D # newline # rest) = topic" (is "?path")
proof -
  have "plain port"
    using assms(5) by (auto simp: plain_def list_all_iff is_alnum_def Let_def)
  then have url: "list_all graphic (''rtsp://'' @ host @ CHR '':'' # port @ CHR ''/'' # topic)"
    using assms(3,4) by (simp add: plain_graphic) (simp add: graphic_def)
  show ?url
    unfolding request_topic_line [OF assms(1,2) url] url_path_plain [OF assms(3,5,4)]
    by (simp add: HasPrefix_def TrimPrefix_def)
  have path: "list_all graphic (CHR ''/'' # topic)"
    using assms(4) by (simp add: plain_graphic) (simp add: graphic_def)
  show ?path
    unfolding request_topic_line [OF assms(1,2) path] by (simp add: HasPrefix_def TrimPrefix_def)
qed

section \<open>Connections that are handed over\<close>

lemma accept_one_local:
  assumes "accept_one ip sum64 p c w = Some (Inl conn, w')"
  shows "w' = w \<and> bc_buf conn = fst (peek [] [] (arrived c))
    \<and> bc_conn conn = snd (snd (peek [] [] (arrived c))) @ later c"
  using assms by (auto simp: accept_one_def Let_def split: if_splits option.splits bool.splits prod.splits)


text \<open>A node of the demonstration cluster, the owner of the topic \<open>cam\<close>.\<close>

definition demo_node :: "string \<Rightarrow> server" where
  "demo_node me = NewServer 9191 9192 None (Some (demo_cluster\<lparr>self_name := me\<rparr>)) True
     3000000000 30000000000"

definition demo_proxy :: "string \<Rightarrow> proxy_listener" where
  "demo_proxy me = \<lparr>pl_server = Some (demo_node me), isPublisher = True\<rparr>"

lemma demo_proxy [simp]:
  "pl_server (demo_proxy me) = Some (demo_node me)" "isPublisher (demo_proxy me)"
  "srv_cluster (demo_node me) = Some (demo_cluster\<lparr>self_name := me\<rparr>)" "pubPort (demo_node me) = 9191"
  by (simp_all add: demo_proxy_def demo_node_def NewServer_def)

lemma demo_node_owner: "Owner byte_sum (demo_cluster\<lparr>self_name := me\<rparr>) ''cam'' = ''n3''"
  by (simp add: Owner_def demo_cluster_def IsDraining_def byte_sum_def score_of_def owner_loop_Cons)

definition demo_incoming :: incoming where
  "demo_incoming = \<lparr>arrived = [take 5 options_head, drop 5 options_head], later = [''later''],
     dial_ok = True\<rparr>"

lemma demo_incoming [simp]:
  "concat (arrived demo_incoming) = options_head" "[] \<notin> set (arrived demo_incoming)"
  "later demo_incoming = [''later'']" "dial_ok demo_incoming"
  by (simp_all add: demo_incoming_def options_head_def)

lemma options_head_topic: "request_topic ip options_head = ''cam''"
  using request_topic_plain(1) [of "''OPTIONS''" "''host''" "''cam''" "''9191''" ip "[CHR 0x0D, newline]"]
  by (simp add: options_head_def blank_line_def graphic_def plain_def is_alnum_def byte_of_def)

lemma accept_one_complete:
  assumes "complete_head (concat (arrived c))" and "pl_server p = Some srv" and "srv_cluster srv = Some cl"
  shows "accept_one ip sum64 p c w =
    (let req = concat (arrived c);
         owner = Owner sum64 cl (request_topic ip req);
         nconn = snd (snd (peek [] [] (arrived c))) @ later c
     in if owner = [] \<or> IsSelf cl owner then Some (Inl \<lparr>bc_conn = nconn, bc_buf = req\<rparr>, w)
        else if dial_ok c
          then Some (Inr (Forwarded (target_address p srv owner) req nconn), with_metrics IncForwardedConnections w)
        else Some (Inr (RefusedWith unavailable), with_metrics IncForwardFailed w))"
proof -
  obtain b q rest where p: "peek [] [] (arrived c) = (b, q, rest)" by (metis prod_cases3)
  with peek_complete [OF assms(1)] have b: "b = concat (arrived c)" by simp
  with assms(1) have "length b \<noteq> 0" by (auto simp del: concat_eq_Nil_conv)
  with p b assms(2,3) show ?thesis
    by (simp add: accept_one_def serve_locally_def proxy_owner_def Let_def del: concat_eq_Nil_conv)
qed


text \<open>Bytes after the blank line that the reader has buffered are lost: the library never sees
  them.\<close>

theorem pipelined_bytes_are_lost:
  "peek [] [] [options_head @ ''next''] = (options_head, ''next'', [])"
  by code_simp

text \<open>Every connection the loop deals with is counted once, as forwarded or as failed.\<close>

definition is_forwarded :: "proxied \<Rightarrow> bool" where
  "is_forwarded f = (case f of Forwarded _ _ _ \<Rightarrow> True | RefusedWith _ \<Rightarrow> False)"

lemma accept_one_counts:
  assumes "accept_one ip sum64 p c w = Some (Inr f, w')"
  shows "w' = (if is_forwarded f then with_metrics IncForwardedConnections w
    else with_metrics IncForwardFailed w)"
  using assms by (auto simp: accept_one_def Let_def is_forwarded_def
      split: if_splits option.splits bool.splits prod.splits)

theorem Accept_counts:
  assumes "Accept ip sum64 p ins w = Some (res, dealt, rest, w')"
  shows "promForwardedConnections (wmetrics w')
        = promForwardedConnections (wmetrics w) + int (length (filter is_forwarded dealt))
    \<and> promForwardFailed (wmetrics w')
        = promForwardFailed (wmetrics w) + int (length (filter (\<lambda>f. \<not> is_forwarded f) dealt))
    \<and> length ins = Suc (length dealt + length rest)"
  using assms
proof (induction ip sum64 p ins w arbitrary: dealt w' rule: Accept.induct)
  case (2 ip sum64 p err ins w)
  then show ?case by simp
next
  case (3 ip sum64 p c ins w)
  show ?case
  proof (cases "accept_one ip sum64 p c w")
    case (Some a)
    obtain r w1 where a: "a = (r, w1)" by fastforce
    show ?thesis
    proof (cases r)
      case (Inl conn)
      with 3(2) Some a accept_one_local [of ip sum64 p c w conn w1] show ?thesis by auto
    next
      case (Inr f)
      with 3(2) Some a obtain dealt' where tail: "Accept ip sum64 p ins w1 = Some (res, dealt', rest, w')"
        "dealt = f # dealt'" by (auto split: option.splits)
      from 3(1) [OF Some a [symmetric] Inr tail(1)] tail(2) accept_one_counts [OF Some [unfolded a Inr]]
      show ?thesis by (auto simp: with_metrics_def metric_defs)
    qed
  qed (use 3(2) in simp)
qed simp

text \<open>The counter of forwarded bytes counts both directions, without the head of the request
  that was written to the owner first.\<close>

theorem forwarded_bytes_counted:
  "copy_finished written up down w = (to_owner, to_client, w') \<Longrightarrow>
    promForwardedBytes (wmetrics w') = promForwardedBytes (wmetrics w)
      + int (length to_owner) - int (length written) + int (length to_client)"
  by (auto simp: copy_finished_def metric_defs)

section \<open>Requests that are forwarded\<close>

text \<open>A node that forwards a connection has sent exactly the head of the request to the
  owner's address and counts one forwarded connection; and the listener of the node of
  that name, when the two agree about the cluster, hands the connection over with nothing
  missing instead of forwarding it again.\<close>

theorem forwarded_request_is_served:
  assumes "complete_head req" and "concat (arrived c) = req" and "concat (arrived c') = req"
    and "pl_server p = Some srv" and "srv_cluster srv = Some cl"
    and "pl_server p' = Some srv'" and "srv_cluster srv' = Some cl'"
    and "accept_one ip sum64 p c w = Some (Inr (Forwarded addr sent rest), w1)"
    and "same_cluster sum64 (request_topic ip req) cl cl'"
    and "Self cl' = Owner sum64 cl (request_topic ip req)"
  shows "sent = req \<and> concat rest = concat (later c)
    \<and> addr = Self cl' @ CHR '':'' # show_int (if isPublisher p then pubPort srv else subPort srv)
    \<and> w1 = with_metrics IncForwardedConnections w
    \<and> (\<exists>conn. accept_one ip sum64 p' c' w2 = Some (Inl conn, w2)
        \<and> bc_content conn = req @ concat (later c'))"
proof -
  have head: "complete_head (concat (arrived c))" "complete_head (concat (arrived c'))"
    using assms(1-3) by simp_all
  have self: "IsSelf cl' (Owner sum64 cl' (request_topic ip req))"
    using cluster_view.forwarded_once [OF assms(9,10)] .
  have "\<exists>conn. accept_one ip sum64 p' c' w2 = Some (Inl conn, w2)
      \<and> bc_content conn = req @ concat (later c')"
    using self peek_complete(2) [OF head(2)] assms(3)
    by (simp add: accept_one_complete [OF head(2) assms(6,7)] Let_def bc_content_def)
  then show ?thesis
    using assms(8) peek_complete(2) [OF head(1)] assms(2,10)
    by (auto simp: accept_one_complete [OF head(1) assms(4,5)] Let_def target_address_def
        split: if_splits)
qed

theorem forwarded_request_is_served_witness:
  "\<exists>addr rest conn.
     accept_one (\<lambda>_. False) byte_sum (demo_proxy ''n1'') demo_incoming init_world
       = Some (Inr (Forwarded addr options_head rest), with_metrics IncForwardedConnections init_world)
     \<and> addr = ''n3'' @ CHR '':'' # show_int 9191
     \<and> accept_one (\<lambda>_. False) byte_sum (demo_proxy ''n3'') demo_incoming init_world = Some (Inl conn, init_world)"
proof -
  have "\<exists>addr rest. accept_one (\<lambda>_. False) byte_sum (demo_proxy ''n1'') demo_incoming init_world
      = Some (Inr (Forwarded addr options_head rest), with_metrics IncForwardedConnections init_world)"
    using accept_one_complete [of demo_incoming "demo_proxy ''n1''"]
    by (simp add: options_head_complete demo_node_owner options_head_topic IsSelf_def Let_def)
  then obtain addr rest where fwd: "accept_one (\<lambda>_. False) byte_sum (demo_proxy ''n1'') demo_incoming init_world
      = Some (Inr (Forwarded addr options_head rest), with_metrics IncForwardedConnections init_world)" by blast
  have same: "same_cluster byte_sum (request_topic (\<lambda>_. False) options_head)
      (demo_cluster\<lparr>self_name := ''n1''\<rparr>) (demo_cluster\<lparr>self_name := ''n3''\<rparr>)"
    by (auto simp: options_head_topic same_cluster_def cluster_ok_def demo_cluster_def IsDraining_def
        inj_on_def score_of_def byte_sum_def)
  have "Self (demo_cluster\<lparr>self_name := ''n3''\<rparr>)
      = Owner byte_sum (demo_cluster\<lparr>self_name := ''n1''\<rparr>) (request_topic (\<lambda>_. False) options_head)"
    by (simp add: Self_def options_head_topic demo_node_owner)
  note served = forwarded_request_is_served [OF options_head_complete demo_incoming(1) demo_incoming(1)
      demo_proxy(1) demo_proxy(3) demo_proxy(1) demo_proxy(3) fwd same this, of init_world]
  from conjunct1 [OF conjunct2 [OF conjunct2 [OF served]]]
    conjunct2 [OF conjunct2 [OF conjunct2 [OF conjunct2 [OF served]]]] fwd
  show ?thesis by (auto simp: Self_def)
qed

end
