(* ===== verification/Network.thy ===== *)
theory Network
  imports ProxyTheorems
begin

text \<open>
  Several machines, each with its own view of the cluster and its own world, and a
  connection that travels between them: the listener it arrives at hands it to its RTSP
  server, refuses it, or forwards it to the address of the owner, where it arrives again.

  The resolution of host names and the way TCP cuts a stream of bytes are outside of the
  program: a network maps names to machines, and \<open>segment\<close> is an argument.
\<close>

record machine =
  mach_server :: server
  mach_world :: world

type_synonym network = "(string, machine) fmap"

text \<open>Whether the listeners of a server are wrapped in a \<open>proxyListener\<close>.\<close>

definition proxies :: "server \<Rightarrow> bool" where
  "proxies srv \<longleftrightarrow> srv_cluster srv \<noteq> None \<and> enableProxy srv"

definition listener_at :: "network \<Rightarrow> string \<Rightarrow> (string \<times> machine \<times> proxy_listener) option" where
  "listener_at net address = (case SplitHostPort address of
       None \<Rightarrow> None
     | Some (host, port) \<Rightarrow> (case fmlookup net host of
           None \<Rightarrow> None
         | Some mc \<Rightarrow>
             if port = show_int (pubPort (mach_server mc))
             then Some (host, mc, \<lparr>pl_server = Some (mach_server mc), isPublisher = True\<rparr>)
             else if port = show_int (subPort (mach_server mc))
             then Some (host, mc, \<lparr>pl_server = Some (mach_server mc), isPublisher = False\<rparr>)
             else None))"

text \<open>
  A connection on its way: the address it arrives at, the head that has been sent to it
  and the segments that follow.
\<close>

record journey =
  j_address :: string
  j_head :: string
  j_rest :: segments

datatype arrival =
    Served string buffered_conn
  | Rejected string string
  | NoListener
  | Crashed
  | Moves journey

text \<open>One machine: what it does with the connection, and the network after it.\<close>

definition arrives ::
    "(string \<Rightarrow> bool) \<Rightarrow> (string \<Rightarrow> 64 word) \<Rightarrow> (string \<Rightarrow> segments) \<Rightarrow> network \<Rightarrow> journey
      \<Rightarrow> arrival \<times> network" where
  "arrives ip sum64 segment net j = (case listener_at net (j_address j) of
       None \<Rightarrow> (NoListener, net)
     | Some (host, mc, p) \<Rightarrow>
         (let c = (\<lambda>ok. \<lparr>arrived = segment (j_head j), later = j_rest j, dial_ok = ok\<rparr>);
              accept = (\<lambda>ok. accept_one ip sum64 p (c ok) (mach_world mc));
              answer = (case accept True of
                Some (Inr (Forwarded a _ _), _) \<Rightarrow> accept (listener_at net a \<noteq> None)
              | r \<Rightarrow> r)
          in if \<not> proxies (mach_server mc)
             then (Served host \<lparr>bc_conn = segment (j_head j) @ j_rest j, bc_buf = []\<rparr>, net)
             else (case answer of
                None \<Rightarrow> (Crashed, net)
              | Some (r, w) \<Rightarrow> (case r of
                    Inl conn \<Rightarrow> Served host conn
                  | Inr (RefusedWith msg) \<Rightarrow> Rejected host msg
                  | Inr (Forwarded a sent rest) \<Rightarrow> Moves \<lparr>j_address = a, j_head = sent, j_rest = rest\<rparr>,
                  fmupd host (mc\<lparr>mach_world := w\<rparr>) net))))"

text \<open>
  The whole way, with the number of times the connection was forwarded; \<open>None\<close> when it is
  forwarded for ever.
\<close>

partial_function (option) route ::
    "(string \<Rightarrow> bool) \<Rightarrow> (string \<Rightarrow> 64 word) \<Rightarrow> (string \<Rightarrow> segments) \<Rightarrow> network \<Rightarrow> journey
      \<Rightarrow> (arrival \<times> nat \<times> network) option" where
  "route ip sum64 segment net j = (case arrives ip sum64 segment net j of
       (Moves j', net') \<Rightarrow> Option.bind (route ip sum64 segment net' j') (\<lambda>(a, k, net''). Some (a, Suc k, net''))
     | (a, net') \<Rightarrow> Some (a, 0, net'))"

lemma route_stops:
  "arrives ip sum64 segment net j = (a, net') \<Longrightarrow> (\<And>j'. a \<noteq> Moves j') \<Longrightarrow>
    route ip sum64 segment net j = Some (a, 0, net')"
  by (subst route.simps) (auto split: arrival.split)

lemma route_moves:
  "arrives ip sum64 segment net j = (Moves j', net') \<Longrightarrow>
    route ip sum64 segment net' j' = Some (a, k, net'') \<Longrightarrow>
    route ip sum64 segment net j = Some (a, Suc k, net'')"
  by (subst route.simps) simp

section \<open>Addresses\<close>

definition plain_name :: "string \<Rightarrow> bool" where
  "plain_name host \<longleftrightarrow> set host \<inter> {CHR '':'', CHR ''['', CHR '']''} = {}"

definition server_port :: "bool \<Rightarrow> server \<Rightarrow> int" where
  "server_port pub srv = (if pub then pubPort srv else subPort srv)"

definition address_of :: "bool \<Rightarrow> string \<Rightarrow> server \<Rightarrow> string" where
  "address_of pub host srv = host @ CHR '':'' # show_int (server_port pub srv)"

definition ports_ok :: "server \<Rightarrow> bool" where
  "ports_ok srv \<longleftrightarrow> 0 < pubPort srv \<and> pubPort srv \<le> 65535 \<and> 0 < subPort srv \<and> subPort srv \<le> 65535
     \<and> pubPort srv \<noteq> subPort srv"

lemma listener_at_address:
  assumes "plain_name host" and "fmlookup net host = Some mc"
    and "server_port pub srv = server_port pub (mach_server mc)" and "ports_ok (mach_server mc)"
  shows "listener_at net (address_of pub host srv)
    = Some (host, mc, \<lparr>pl_server = Some (mach_server mc), isPublisher = pub\<rparr>)"
proof -
  have "SplitHostPort (address_of pub host srv) = Some (host, show_int (server_port pub (mach_server mc)))"
    unfolding address_of_def assms(3)
    using assms(1) show_int_plain by (intro SplitHostPort_plain) (simp_all add: plain_name_def)
  moreover have "show_int (subPort (mach_server mc)) \<noteq> show_int (pubPort (mach_server mc))"
    using assms(4) show_int_inj [of "subPort (mach_server mc)" "pubPort (mach_server mc)"]
    by (auto simp: ports_ok_def)
  ultimately show ?thesis
    using assms(2) by (simp add: listener_at_def server_port_def)
qed

lemma listener_at_nobody:
  assumes "plain_name host" and "fmlookup net host = None"
  shows "listener_at net (address_of pub host srv) = None"
proof -
  have "SplitHostPort (address_of pub host srv) = Some (host, show_int (server_port pub srv))"
    unfolding address_of_def
    using assms(1) show_int_plain by (intro SplitHostPort_plain) (simp_all add: plain_name_def)
  with assms(2) show ?thesis by (simp add: listener_at_def)
qed

lemma target_address_of:
  "target_address \<lparr>pl_server = q, isPublisher = pub\<rparr> srv owner = address_of pub owner srv"
  by (simp add: target_address_def address_of_def server_port_def)

section \<open>One arrival\<close>

text \<open>What becomes of a complete request at a machine that proxies.\<close>

lemma arrives_complete:
  assumes at: "listener_at net address = Some (host, mc, \<lparr>pl_server = Some (mach_server mc), isPublisher = pub\<rparr>)"
    and proxy: "proxies (mach_server mc)" "srv_cluster (mach_server mc) = Some cl"
    and head: "complete_head req" "concat (segment req) = req"
    and owner: "owner = Owner sum64 cl (request_topic ip req)"
  shows "\<exists>rest. concat rest = concat tail \<and> arrives ip sum64 segment net \<lparr>j_address = address, j_head = req, j_rest = tail\<rparr> =
    (if owner = [] \<or> IsSelf cl owner
     then (Served host \<lparr>bc_conn = rest, bc_buf = req\<rparr>, fmupd host (mc\<lparr>mach_world := mach_world mc\<rparr>) net)
     else if listener_at net (address_of pub owner (mach_server mc)) \<noteq> None
     then (Moves \<lparr>j_address = address_of pub owner (mach_server mc), j_head = req, j_rest = rest\<rparr>,
       fmupd host (mc\<lparr>mach_world := with_metrics IncForwardedConnections (mach_world mc)\<rparr>) net)
     else (Rejected host unavailable,
       fmupd host (mc\<lparr>mach_world := with_metrics IncForwardFailed (mach_world mc)\<rparr>) net))"
proof -
  define rest where "rest = snd (snd (peek [] [] (segment req))) @ tail"
  have complete: "complete_head (concat (segment req))" using head by simp
  then have "concat rest = concat tail"
    using peek_complete(2) by (simp add: rest_def)
  moreover have "accept_one ip sum64 \<lparr>pl_server = Some (mach_server mc), isPublisher = pub\<rparr>
      \<lparr>arrived = segment req, later = tail, dial_ok = ok\<rparr> w =
    (if owner = [] \<or> IsSelf cl owner then Some (Inl \<lparr>bc_conn = rest, bc_buf = req\<rparr>, w)
     else if ok then Some (Inr (Forwarded (address_of pub owner (mach_server mc)) req rest),
       with_metrics IncForwardedConnections w)
     else Some (Inr (RefusedWith unavailable), with_metrics IncForwardFailed w))" for ok w
    using accept_one_complete [where c = "\<lparr>arrived = segment req, later = tail, dial_ok = ok\<rparr>"
        and p = "\<lparr>pl_server = Some (mach_server mc), isPublisher = pub\<rparr>", OF _ _ proxy(2)] complete head(2)
    by (simp add: Let_def owner target_address_of rest_def)
  ultimately show ?thesis
    by (intro exI [of _ rest] conjI) (simp_all add: arrives_def at proxy(1) Let_def)
qed

lemma Owner_member:
  assumes "cluster_ok c"
  shows "Owner sum64 c topic = [] \<or> Owner sum64 c topic \<in> set (nodes c)"
proof -
  have "[] \<notin> set (nodes c)" using assms by (simp add: cluster_ok_def)
  then show ?thesis by (cases rule: Owner_cases [of c sum64 topic]) simp_all
qed

section \<open>Machines that agree\<close>

text \<open>
  Every machine is known to the others under the name it has itself, runs the proxy, and
  uses the same ports; the machines agree about the topic (\<open>same_cluster\<close>).
\<close>

definition machine_ok :: "string \<Rightarrow> machine \<Rightarrow> bool" where
  "machine_ok host mc \<longleftrightarrow> host \<noteq> [] \<and> plain_name host \<and> ports_ok (mach_server mc) \<and> proxies (mach_server mc)
     \<and> (\<forall>cl. srv_cluster (mach_server mc) = Some cl \<longrightarrow>
          cluster_ok cl \<and> Self cl = host \<and> (\<forall>n \<in> set (nodes cl). plain_name n))"

definition machines_agree :: "(string \<Rightarrow> 64 word) \<Rightarrow> string \<Rightarrow> machine \<Rightarrow> machine \<Rightarrow> bool" where
  "machines_agree sum64 topic mc mc' \<longleftrightarrow>
     pubPort (mach_server mc') = pubPort (mach_server mc) \<and> subPort (mach_server mc') = subPort (mach_server mc)
     \<and> (\<forall>cl cl'. srv_cluster (mach_server mc) = Some cl \<longrightarrow> srv_cluster (mach_server mc') = Some cl' \<longrightarrow>
          same_cluster sum64 topic cl cl')"

definition network_ok :: "(string \<Rightarrow> 64 word) \<Rightarrow> string \<Rightarrow> network \<Rightarrow> bool" where
  "network_ok sum64 topic net \<longleftrightarrow>
     (\<forall>host mc. fmlookup net host = Some mc \<longrightarrow> machine_ok host mc
       \<and> (\<forall>host' mc'. fmlookup net host' = Some mc' \<longrightarrow> machines_agree sum64 topic mc mc'))"

lemma network_okD:
  assumes "network_ok sum64 topic net" and "fmlookup net host = Some mc"
  shows "plain_name host" "ports_ok (mach_server mc)" "proxies (mach_server mc)" "host \<noteq> []"
    and "srv_cluster (mach_server mc) = Some cl \<Longrightarrow>
      cluster_ok cl \<and> Self cl = host \<and> (\<forall>n \<in> set (nodes cl). plain_name n)"
    and "fmlookup net host' = Some mc' \<Longrightarrow> machines_agree sum64 topic mc mc'"
  using assms by (auto simp: network_ok_def machine_ok_def)

lemma remote_iff:
  assumes "srv_cluster srv = Some cl"
  shows "owner_is_remote sum64 (new_handler srv) topic \<longleftrightarrow> \<not> IsSelf cl (Owner sum64 cl topic)"
  using assms by (simp add: owner_is_remote_def new_handler_def)


text \<open>Two running machines of the demonstration cluster; the topic belongs to \<open>n3\<close>.\<close>

definition demo_machine :: "string \<Rightarrow> machine" where
  "demo_machine me = \<lparr>mach_server = demo_node me, mach_world = init_world\<rparr>"

definition demo_network :: network where
  "demo_network = fmupd ''n1'' (demo_machine ''n1'') (fmupd ''n3'' (demo_machine ''n3'') fmempty)"

lemma demo_machine [simp]:
  "mach_server (demo_machine me) = demo_node me"
  "subPort (demo_node me) = 9192" "enableProxy (demo_node me)"
  by (simp_all add: demo_machine_def demo_node_def NewServer_def)

lemma demo_network_ok: "network_ok byte_sum ''cam'' demo_network"
proof -
  have "machine_ok me (demo_machine me)" if "me \<in> {''n1'', ''n3''}" for me
    using that
    by (auto simp: machine_ok_def plain_name_def ports_ok_def proxies_def cluster_ok_def demo_cluster_def
        IsDraining_def Self_def)
  moreover have "machines_agree byte_sum ''cam'' (demo_machine me) (demo_machine me')" for me me'
    by (auto simp: machines_agree_def same_cluster_def cluster_ok_def demo_cluster_def IsDraining_def
        inj_on_def score_of_def byte_sum_def)
  ultimately show ?thesis by (auto simp: network_ok_def demo_network_def)
qed


section \<open>Machines that disagree\<close>

text \<open>
  A cluster of two, each of which regards itself as draining and the other one as not: what
  one gets when each node is drained on its own admin page.
\<close>

definition opposed :: "server \<Rightarrow> string \<Rightarrow> string \<Rightarrow> network \<Rightarrow> bool" where
  "opposed srv a b net \<longleftrightarrow> a \<noteq> b \<and> (\<forall>(x, y) \<in> {(a, b), (b, a)}. \<exists>mc cl. fmlookup net x = Some mc
     \<and> machine_ok x mc \<and> pubPort (mach_server mc) = pubPort srv \<and> subPort (mach_server mc) = subPort srv
     \<and> srv_cluster (mach_server mc) = Some cl \<and> set (nodes cl) = {a, b}
     \<and> IsDraining cl x \<and> \<not> IsDraining cl y)"

lemma opposed_sym: "opposed srv a b net \<Longrightarrow> opposed srv b a net"
  by (auto simp: opposed_def insert_commute)

lemma opposedE:
  assumes "opposed srv a b net"
  obtains mc cl where "fmlookup net a = Some mc" "machine_ok a mc"
    "pubPort (mach_server mc) = pubPort srv" "subPort (mach_server mc) = subPort srv"
    "srv_cluster (mach_server mc) = Some cl" "set (nodes cl) = {a, b}" "IsDraining cl a" "\<not> IsDraining cl b"
  using assms by (fastforce simp: opposed_def)

lemma opposed_world:
  assumes "opposed srv a b net" and "fmlookup net a = Some mc"
  shows "opposed srv a b (fmupd a (mc\<lparr>mach_world := w\<rparr>) net)"
  using assms by (auto simp: opposed_def machine_ok_def)

lemma opposed_owner:
  assumes "cluster_ok cl" and "set (nodes cl) = {a, b}" and "IsDraining cl a" and "\<not> IsDraining cl b"
  shows "Owner sum64 cl topic = b"
proof -
  have "[] \<notin> set (nodes cl)" using assms(1) by (simp add: cluster_ok_def)
  then show ?thesis
  proof (cases rule: Owner_cases [of cl sum64 topic])
    case none
    then show ?thesis using assms by (auto simp: eligible_def filter_empty_conv)
  qed (use assms in auto)
qed

lemma opposed_step:
  assumes "opposed srv a b net" and head: "complete_head req" "concat (segment req) = req"
  shows "\<exists>rest net'. arrives ip sum64 segment net \<lparr>j_address = address_of pub a srv, j_head = req, j_rest = tail\<rparr>
      = (Moves \<lparr>j_address = address_of pub b srv, j_head = req, j_rest = rest\<rparr>, net')
    \<and> opposed srv b a net'"
proof -
  from assms(1) obtain mc cl where mc: "fmlookup net a = Some mc" "machine_ok a mc"
    "pubPort (mach_server mc) = pubPort srv" "subPort (mach_server mc) = subPort srv"
    "srv_cluster (mach_server mc) = Some cl" "set (nodes cl) = {a, b}" "IsDraining cl a" "\<not> IsDraining cl b"
    by (rule opposedE)
  from opposed_sym [OF assms(1)] obtain mc' where mc': "fmlookup net b = Some mc'" "machine_ok b mc'"
    "pubPort (mach_server mc') = pubPort srv" "subPort (mach_server mc') = subPort srv"
    by (rule opposedE)
  have ok: "cluster_ok cl" "Self cl = a" and proxy: "proxies (mach_server mc)"
    using mc(2,5) by (simp_all add: machine_ok_def)
  have addr: "address_of pub x (mach_server mc) = address_of pub x srv" for x
    using mc(3,4) by (simp add: address_of_def server_port_def)
  have at: "listener_at net (address_of pub a srv) = Some (a, mc, \<lparr>pl_server = Some (mach_server mc), isPublisher = pub\<rparr>)"
    using mc by (intro listener_at_address) (simp_all add: machine_ok_def server_port_def)
  have up: "listener_at net (address_of pub b srv) \<noteq> None"
    using mc' listener_at_address [of b net mc' pub srv] by (simp add: machine_ok_def server_port_def)
  have owner: "b = Owner sum64 cl (request_topic ip req)"
    using opposed_owner [OF ok(1) mc(6-8)] by simp
  have "b \<noteq> []" using mc(6) ok(1) by (auto simp: cluster_ok_def)
  moreover have "\<not> IsSelf cl b" using ok(2) assms(1) by (auto simp: IsSelf_def Self_def opposed_def)
  ultimately obtain rest where "arrives ip sum64 segment net \<lparr>j_address = address_of pub a srv, j_head = req, j_rest = tail\<rparr>
      = (Moves \<lparr>j_address = address_of pub b srv, j_head = req, j_rest = rest\<rparr>,
         fmupd a (mc\<lparr>mach_world := with_metrics IncForwardedConnections (mach_world mc)\<rparr>) net)"
    using arrives_complete [where segment = segment and req = req, OF at proxy mc(5) head owner] up
    by (auto simp: addr)
  then show ?thesis
    using opposed_sym [OF opposed_world [OF assms(1) mc(1)]] by blast
qed

text \<open>C31: When each of two nodes regards itself as draining and the other one as not, every
  connection with a complete request is forwarded from one to the other for ever, for every
  topic: its way never ends.\<close>

theorem opposed_draining_circulates:
  assumes "opposed srv a b net" and "complete_head req" and "\<forall>s. concat (segment s) = s"
  shows "route ip sum64 segment net
    \<lparr>j_address = address_of pub a srv, j_head = req, j_rest = rest\<rparr> = None"
proof -
  have never: "(\<forall>s. concat (segment s) = s) \<longrightarrow> (\<forall>a b. opposed srv a b net \<longrightarrow>
      j_address j = address_of pub a srv \<longrightarrow> j_head j = req \<longrightarrow> False)"
    if "route ip sum64 segment net j = Some r" for net j r
    using that
  proof (induction rule: route.raw_induct [rotated, consumes 1, case_names step])
    case (step route' ip sum64 segment net j r)
    show ?case
    proof (intro impI allI)
      fix a b
      assume seg: "\<forall>s. concat (segment s) = s" and opp: "opposed srv a b net"
        and addr: "j_address j = address_of pub a srv" "j_head j = req"
      have j: "j = \<lparr>j_address = address_of pub a srv, j_head = req, j_rest = j_rest j\<rparr>"
        using addr by (cases j) simp
      obtain rest' net' where "arrives ip sum64 segment net j
          = (Moves \<lparr>j_address = address_of pub b srv, j_head = req, j_rest = rest'\<rparr>, net')"
        and opp': "opposed srv b a net'"
        using opposed_step [OF opp assms(2), of segment ip sum64 pub "j_rest j"] seg j by metis
      with step(2) obtain r' where "route' ip sum64 segment net'
          \<lparr>j_address = address_of pub b srv, j_head = req, j_rest = rest'\<rparr> = Some r'"
        by (auto simp: bind_eq_Some_conv)
      from step(1) [OF this] seg opp' show False by auto
    qed
  qed
  show ?thesis
    using never [of net "\<lparr>j_address = address_of pub a srv, j_head = req, j_rest = rest\<rparr>"] assms
    by (metis journey.select_convs(1,2) not_None_eq)
qed

text \<open>Two nodes, each of them drained on its own admin page.\<close>

definition drained_machine :: "string \<Rightarrow> machine" where
  "drained_machine me = (demo_machine me)\<lparr>mach_server := (demo_node me)\<lparr>srv_cluster :=
     Some (SetDraining me True \<lparr>nodes = [''n1'', ''n2''], nodeSet = {''n1'', ''n2''}, self_name = me, draining = fmempty\<rparr>)\<rparr>\<rparr>"

lemma drained_machines_opposed:
  "opposed (demo_node ''n1'') ''n1'' ''n2''
    (fmupd ''n1'' (drained_machine ''n1'') (fmupd ''n2'' (drained_machine ''n2'') fmempty))"
  by (auto simp: opposed_def drained_machine_def machine_ok_def plain_name_def ports_ok_def proxies_def
      cluster_ok_def IsDraining_SetDraining Self_def SetDraining_def IsDraining_def)

theorem opposed_draining_circulates_witness:
  "route (\<lambda>_. False) byte_sum (\<lambda>s. [s])
      (fmupd ''n1'' (drained_machine ''n1'') (fmupd ''n2'' (drained_machine ''n2'') fmempty))
      \<lparr>j_address = address_of True ''n1'' (demo_node ''n1''), j_head = options_head, j_rest = []\<rparr> = None"
  by (rule opposed_draining_circulates [OF drained_machines_opposed options_head_complete]) simp

end
