(* ===== verification/Federation.thy ===== *)
theory Federation
  imports Network ServerTheorems
begin

text \<open>
  The nodes of a cluster side by side: each runs its own handler and manager and knows
  the others only through its view of the cluster.  While the draining flags rest, a topic
  is published on one machine only; a drain lets two machines publish it.
\<close>

text \<open>The states a node reaches while nobody changes the draining flags.\<close>

inductive steady_reach :: "(string \<Rightarrow> 64 word) \<Rightarrow> config \<Rightarrow> server \<Rightarrow> node \<Rightarrow> bool" for sum64 cfg srv where
  steady_start: "fresh_world w \<Longrightarrow> steady_reach sum64 cfg srv (start_node cfg srv w)"
| steady_next: "steady_reach sum64 cfg srv n \<Longrightarrow> library_order n r \<Longrightarrow> (\<And>k d. r \<noteq> Drain k d) \<Longrightarrow>
    node_step sum64 n r n' \<Longrightarrow> steady_reach sum64 cfg srv n'"

lemma steady_reach_node: "steady_reach sum64 cfg srv n \<Longrightarrow> node_reach sum64 cfg srv n"
  by (induction rule: steady_reach.induct) (auto intro: node_reach.intros)

lemma run_requests_steady:
  "run_requests sum64 rs n = Some n' \<Longrightarrow> (\<forall>k d. Drain k d \<notin> set rs) \<Longrightarrow>
    steady_reach sum64 cfg srv n \<Longrightarrow> steady_reach sum64 cfg srv n'"
proof (induction rs arbitrary: n)
  case (Cons r rs)
  then obtain n1 where r: "library_order n r" "exec_request sum64 r n = Some n1"
    "run_requests sum64 rs n1 = Some n'" by (auto split: if_splits option.splits)
  have "steady_reach sum64 cfg srv n1"
    using Cons.prems(2) by (intro steady_next [OF Cons.prems(3) r(1) _ exec_request_sound [OF r(2)]]) auto
  with Cons r(3) show ?case by simp
qed simp

text \<open>What a session publishes, the node has found to be its own.\<close>

lemma owner_is_remote_cong: "serverRef h' = serverRef h \<Longrightarrow> owner_is_remote sum64 h' k = owner_is_remote sum64 h k"
  by (simp add: owner_is_remote_def)

lemma steady_step_owned:
  assumes "node_step sum64 n r n'" and "\<And>k d. r \<noteq> Drain k d"
  shows "serverRef (n_handler n') = serverRef (n_handler n)
    \<and> (publishes (n_handler n') s k \<longrightarrow>
        publishes (n_handler n) s k \<or> \<not> owner_is_remote sum64 (n_handler n) k)"
  using assms
proof (induction rule: node_step.induct)
  case (announces sess path st n resp h' m' w')
  then show ?case
    by (auto simp: OnAnnounce_def Let_def with_state_def publishes_upd split: if_splits option.splits prod.splits)
next
  case (plays sess path n resp h' m' w')
  then show ?case
    by (auto simp: OnPlay_def Let_def with_state_def publishes_upd split: if_splits option.splits prod.splits)
next
  case (session_closes sess n h' m' w')
  then show ?case
    by (auto simp: OnSessionClose_def Let_def with_state_def publishes_drop split: if_splits prod.splits)
qed (auto simp: with_state_def)

lemma steady_owned:
  assumes "steady_reach sum64 cfg srv n"
  shows "serverRef (n_handler n) = Some srv
    \<and> (\<forall>s k. publishes (n_handler n) s k \<longrightarrow> \<not> owner_is_remote sum64 (new_handler srv) k)"
  using assms
proof (induction rule: steady_reach.induct)
  case (steady_start w)
  then show ?case by (simp add: start_node_def) (simp add: new_handler_def publishes_def)
next
  case (steady_next n r n')
  have ref: "serverRef (n_handler n') = Some srv"
    using steady_step_owned [OF steady_next(4,3)] steady_next(5) by simp
  have "owner_is_remote sum64 (n_handler n) k = owner_is_remote sum64 (new_handler srv) k" for k
    using steady_next(5) by (intro owner_is_remote_cong) (simp add: new_handler_def)
  with ref steady_step_owned [OF steady_next(4,3)] steady_next(5) show ?case by blast
qed


text \<open>The owner of the topic \<open>cam\<close> in the demonstration cluster, and the next one in line.\<close>

lemmas node_eval = server_eval run_eval publishes_def demo_node_def drain_server_def

lemma Owner_without_n3:
  "Owner byte_sum (SetDraining ''n3'' True (demo_cluster\<lparr>self_name := me\<rparr>)) ''cam'' = ''n2''"
  by (simp add: Owner_def demo_cluster_def SetDraining_def IsDraining_def byte_sum_def score_of_def owner_loop_Cons)

lemma owner_publishes:
  obtains n where "run_requests byte_sum [Announce 1 ''/cam'' 7] (init_node demo_config (demo_node ''n3'')) = Some n"
    and "publishes (n_handler n) 1 ''cam''"
  using demo_node_owner [of "''n3''"]
  by (simp add: node_eval IsSelf_def)



end
