(* ===== verification/Otlp.thy ===== *)
theory Otlp
  imports Metrics GoNet
begin

text \<open>
  \<open>InitOTLP\<close> of \<^verbatim>\<open>pkg/metrics/metrics.go\<close>: the OTLP exporter and its instruments, tried
  once at the start and then again and again in the background until it succeeds or the
  process stops.

  One attempt meets an environment: whether the name resolves, whether the exporter can
  be created, and for which instruments the library reports an error, with the value it
  returns beside the error (which the code stores before it looks at the error).
\<close>

record otlp_env =
  resolves :: "string \<Rightarrow> bool"
  exporter_ok :: bool
  instrument_error :: "string \<Rightarrow> int option option"

datatype otlp_error = DnsFailed string | ExporterFailed | InstrumentFailed string

text \<open>The instruments in the order of their creation, with the variable each is stored in.\<close>

definition instruments :: "(string \<times> (int option \<Rightarrow> metrics \<Rightarrow> metrics)) list" where
  "instruments =
    [(''rtsper_active_publishers'', \<lambda>v m. m\<lparr>activePublishers := v\<rparr>),
     (''rtsper_publishers_registered_total'', \<lambda>v m. m\<lparr>totalPublishers := v\<rparr>),
     (''rtsper_active_subscribers'', \<lambda>v m. m\<lparr>activeSubscribers := v\<rparr>),
     (''rtsper_subscribers_registered_total'', \<lambda>v m. m\<lparr>totalSubscribers := v\<rparr>),
     (''rtsper_packets_received_total'', \<lambda>v m. m\<lparr>packetsReceived := v\<rparr>),
     (''rtsper_packets_dispatched_total'', \<lambda>v m. m\<lparr>packetsDispatched := v\<rparr>),
     (''rtsper_packets_dropped_total'', \<lambda>v m. m\<lparr>packetsDropped := v\<rparr>),
     (''rtsper_allocator_reservations_total'', \<lambda>v m. m\<lparr>allocatorReservations := v\<rparr>),
     (''rtsper_allocator_reserved_pairs'', \<lambda>v m. m\<lparr>allocatorReservedPairs := v\<rparr>)]"

fun create_instruments ::
    "(string \<Rightarrow> int option option) \<Rightarrow> (string \<times> (int option \<Rightarrow> metrics \<Rightarrow> metrics)) list \<Rightarrow> metrics
      \<Rightarrow> otlp_error option \<times> metrics" where
  "create_instruments err [] m = (None, m)"
| "create_instruments err ((name, store) # rest) m = (case err name of
       None \<Rightarrow> create_instruments err rest (store (Some 0) m)
     | Some v \<Rightarrow> (Some (InstrumentFailed name), store v m))"

definition otlp_host :: "string \<Rightarrow> string" where
  "otlp_host endpoint = (case SplitHostPort endpoint of Some (host, _) \<Rightarrow> host | None \<Rightarrow> endpoint)"

definition tryInit :: "string \<Rightarrow> otlp_env \<Rightarrow> metrics \<Rightarrow> otlp_error option \<times> metrics" where
  "tryInit endpoint env m =
     (let host = otlp_host endpoint in
      if \<not> resolves env host then (Some (DnsFailed host), m)
      else if \<not> exporter_ok env then (Some ExporterFailed, m)
      else create_instruments (instrument_error env) instruments m)"

text \<open>Durations are in nanoseconds.\<close>

abbreviation second :: int where "second \<equiv> 1000000000"

text \<open>
  The goroutine: it waits for the backoff time or for the context to be cancelled.  The
  result tells where it stands after the events, with the times it has waited in full.
\<close>

datatype retry_event = ContextDone | BackoffOver otlp_env

datatype retry_status = Waiting int | Stopped | Initialised

fun retry_loop ::
    "string \<Rightarrow> int \<Rightarrow> retry_event list \<Rightarrow> metrics \<Rightarrow> retry_status \<times> int list \<times> metrics" where
  "retry_loop endpoint backoff [] m = (Waiting backoff, [], m)"
| "retry_loop endpoint backoff (ContextDone # es) m = (Stopped, [], m)"
| "retry_loop endpoint backoff (BackoffOver env # es) m =
     (case tryInit endpoint env m of
        (None, m') \<Rightarrow> (Initialised, [backoff], m')
      | (Some _, m') \<Rightarrow>
          (let backoff' = (if backoff < 60 * second then backoff * 2 else backoff) in
             case retry_loop endpoint backoff' es m' of
               (st, waits, m'') \<Rightarrow> (st, backoff # waits, m'')))"

text \<open>
  \<open>InitOTLP\<close> never reports an error; \<open>None\<close> is the return without a goroutine, otherwise
  the goroutine starts with the given backoff.
\<close>

definition InitOTLP :: "string \<Rightarrow> otlp_env \<Rightarrow> metrics \<Rightarrow> int option \<times> metrics" where
  "InitOTLP endpoint env m =
     (if endpoint = [] then (None, m)
      else case tryInit endpoint env m of
        (None, m') \<Rightarrow> (None, m')
      | (Some _, m') \<Rightarrow> (Some (5 * second), m'))"

section \<open>One attempt\<close>

definition reachable_collector :: "string \<Rightarrow> otlp_env \<Rightarrow> bool" where
  "reachable_collector endpoint env \<longleftrightarrow> resolves env (otlp_host endpoint) \<and> exporter_ok env
     \<and> (\<forall>i \<in> set instruments. instrument_error env (fst i) = None)"

text \<open>The nine variables.\<close>

definition otlp_vars :: "metrics \<Rightarrow> int option list" where
  "otlp_vars m = [activePublishers m, totalPublishers m, activeSubscribers m, totalSubscribers m,
     packetsReceived m, packetsDispatched m, packetsDropped m, allocatorReservations m,
     allocatorReservedPairs m]"

lemma create_instruments_fails:
  "fst (create_instruments err is m) = None \<longleftrightarrow> (\<forall>i \<in> set is. err (fst i) = None)"
  by (induction err "is" m rule: create_instruments.induct) (auto split: option.split)

lemma tryInit_ok: "fst (tryInit endpoint env m) = None \<longleftrightarrow> reachable_collector endpoint env"
  by (simp add: tryInit_def Let_def reachable_collector_def create_instruments_fails)

lemma tryInit_live:
  assumes "reachable_collector endpoint env"
  shows "otlp_vars (snd (tryInit endpoint env m)) = replicate 9 (Some 0)"
  using assms
  by (simp add: tryInit_def Let_def reachable_collector_def instruments_def otlp_vars_def
      eval_nat_numeral)

section \<open>The backoff\<close>

definition next_backoff :: "int \<Rightarrow> int" where
  "next_backoff b = (if b < 60 * second then b * 2 else b)"

definition backoff_at :: "nat \<Rightarrow> int" where
  "backoff_at k = (next_backoff ^^ k) (5 * second)"

lemma next_backoff_le: "b \<in> {5 * second, 10 * second, 20 * second, 40 * second, 80 * second} \<Longrightarrow>
  next_backoff b \<in> {10 * second, 20 * second, 40 * second, 80 * second}"
  by (auto simp: next_backoff_def)

lemma backoff_at_values:
  "backoff_at k \<in> {5 * second, 10 * second, 20 * second, 40 * second, 80 * second}"
proof (induction k)
  case (Suc k)
  then show ?case using next_backoff_le [OF Suc] by (auto simp: backoff_at_def)
qed (simp add: backoff_at_def)

lemma backoff_at_Suc: "next_backoff (backoff_at k) = backoff_at (Suc k)"
  by (simp add: backoff_at_def)

lemma backoff_at_mono: "backoff_at k \<le> backoff_at (Suc k)"
  using backoff_at_values [of k] by (auto simp flip: backoff_at_Suc simp: next_backoff_def)

lemma backoff_at_late: "backoff_at (4 + k) = 80 * second"
  by (induction k) (simp_all add: backoff_at_def next_backoff_def eval_nat_numeral)

lemma retry_loop_failures:
  assumes "\<forall>env \<in> set envs. \<not> reachable_collector endpoint env"
  shows "retry_loop endpoint (backoff_at k) (map BackoffOver envs @ es) m
    = (case retry_loop endpoint (backoff_at (k + length envs)) es
          (foldl (\<lambda>m env. snd (tryInit endpoint env m)) m envs) of
        (st, waits, m') \<Rightarrow> (st, map backoff_at [k..<k + length envs] @ waits, m'))"
  using assms
proof (induction envs arbitrary: k m)
  case Nil
  then show ?case by (simp split: prod.split)
next
  case (Cons env envs)
  obtain e m' where t: "tryInit endpoint env m = (Some e, m')"
    using Cons.prems tryInit_ok [of endpoint env m] by (cases "tryInit endpoint env m") auto
  have "retry_loop endpoint (backoff_at k) (map BackoffOver (env # envs) @ es) m
      = (case retry_loop endpoint (backoff_at (Suc k)) (map BackoffOver envs @ es) m' of
          (st, waits, m'') \<Rightarrow> (st, backoff_at k # waits, m''))"
    by (simp add: t Let_def flip: backoff_at_Suc) (simp add: next_backoff_def)
  moreover have "[k..<k + length (env # envs)] = k # [Suc k..<Suc k + length envs]"
    by (subst upt_conv_Cons) simp_all
  ultimately show ?case
    using Cons.IH [of "Suc k" m'] Cons.prems t by (simp split: prod.split)
qed

text \<open>C34: When the collector is unreachable at first, the background goroutine keeps trying
  and initialises the exporter at the first attempt that meets a reachable collector,
  unless the process stops first; then all nine instruments count from 0.  Before
  attempt \<open>k\<close> it waits 5, 10, 20, 40 and then always 80 seconds, so \<open>n\<close> failures delay it by
  at most \<open>80 (n + 1)\<close> seconds.\<close>

theorem otlp_retry_reaches_collector:
  assumes "\<forall>env \<in> set (env0 # envs). \<not> reachable_collector endpoint env"
    and "reachable_collector endpoint env" and "endpoint \<noteq> []"
  shows "\<exists>backoff m1 waits m2. InitOTLP endpoint env0 m = (Some backoff, m1)
    \<and> retry_loop endpoint backoff (map BackoffOver (envs @ [env]) @ es) m1 = (Initialised, waits, m2)
    \<and> otlp_vars m2 = replicate 9 (Some 0)
    \<and> (\<forall>k < length waits. waits ! k = (if k < 4 then 5 * 2 ^ k * second else 80 * second))
    \<and> length waits = length envs + 1
    \<and> sum_list waits \<le> 80 * second * (int (length envs) + 1)"
proof -
  obtain e m1 where init: "tryInit endpoint env0 m = (Some e, m1)"
    using assms(1) tryInit_ok [of endpoint env0 m] by (cases "tryInit endpoint env0 m") auto
  define m2 where "m2 = foldl (\<lambda>m env. snd (tryInit endpoint env m)) m1 envs"
  obtain m3 where last: "tryInit endpoint env m2 = (None, m3)"
    using assms(2) tryInit_ok [of endpoint env m2] by (cases "tryInit endpoint env m2") auto
  define waits where "waits = map backoff_at [0..<length envs + 1]"
  have "retry_loop endpoint (backoff_at 0) (map BackoffOver envs @ BackoffOver env # es) m1
      = (Initialised, waits, m3)"
    using assms(1) retry_loop_failures [of envs endpoint 0 "BackoffOver env # es" m1] last
    by (simp add: m2_def [symmetric] waits_def)
  moreover have "backoff_at 0 = 5 * second" by (simp add: backoff_at_def)
  moreover have "otlp_vars m3 = replicate 9 (Some 0)"
    using tryInit_live [OF assms(2), of m2] last by simp
  moreover have "waits ! k = (if k < 4 then 5 * 2 ^ k * second else 80 * second)" if "k < length waits" for k
  proof (cases "k < 4")
    case True
    then have "k \<in> {0, 1, 2, 3}" by auto
    then have "backoff_at k = 5 * 2 ^ k * second"
      by (auto simp: backoff_at_def next_backoff_def eval_nat_numeral)
    with True that show ?thesis by (simp add: waits_def del: upt_Suc)
  next
    case False
    then obtain j where "k = 4 + j" using le_Suc_ex not_less by blast
    with that False backoff_at_late [of j] show ?thesis by (simp add: waits_def del: upt_Suc)
  qed
  moreover have "sum_list waits \<le> 80 * second * (int (length envs) + 1)"
  proof -
    have "backoff_at k \<le> 80 * second" for k using backoff_at_values [of k] by auto
    then have "sum_list (map backoff_at ks) \<le> 80 * second * int (length ks)" for ks
      by (induction ks) (auto simp: algebra_simps add_mono)
    from this [of "[0..<length envs + 1]"] show ?thesis by (simp add: waits_def algebra_simps)
  qed
  moreover have "InitOTLP endpoint env0 m = (Some (5 * second), m1)"
    using assms(3) init by (simp add: InitOTLP_def)
  moreover have "length waits = length envs + 1" by (simp add: waits_def)
  ultimately show ?thesis
    by (intro exI [of _ "5 * second"] exI [of _ m1] exI [of _ waits] exI [of _ m3]) simp
qed

text \<open>For the demonstration: two failures of the name lookup, then success.\<close>

definition demo_collector :: "bool \<Rightarrow> otlp_env" where
  "demo_collector up = \<lparr>resolves = (\<lambda>_. up), exporter_ok = True, instrument_error = (\<lambda>_. None)\<rparr>"

theorem otlp_retry_reaches_collector_witness:
  "\<exists>backoff m1 waits m2. InitOTLP ''collector:4317'' (demo_collector False) metrics_init = (Some backoff, m1)
    \<and> retry_loop ''collector:4317'' backoff (map BackoffOver [demo_collector False, demo_collector True]) m1
        = (Initialised, waits, m2)
    \<and> length waits = 2 \<and> waits ! 1 = 10 * second \<and> activePublishers m2 = Some 0"
proof -
  have "\<forall>env \<in> set [demo_collector False, demo_collector False].
      \<not> reachable_collector ''collector:4317'' env"
    and "reachable_collector ''collector:4317'' (demo_collector True)"
    by (simp_all add: reachable_collector_def demo_collector_def)
  from otlp_retry_reaches_collector [OF this, of metrics_init "[]"]
  obtain backoff m1 waits m2 where *: "InitOTLP ''collector:4317'' (demo_collector False) metrics_init = (Some backoff, m1)"
    "retry_loop ''collector:4317'' backoff (map BackoffOver ([demo_collector False] @ [demo_collector True]) @ []) m1
      = (Initialised, waits, m2)"
    "otlp_vars m2 = replicate 9 (Some 0)" "length waits = 2"
    "\<forall>k < length waits. waits ! k = (if k < 4 then 5 * 2 ^ k * second else 80 * second)"
    by auto
  from *(4,5) have "waits ! 1 = 10 * second" by simp
  moreover from *(3) have "activePublishers m2 = Some 0" by (simp add: otlp_vars_def eval_nat_numeral)
  ultimately show ?thesis using *(1,2,4) by (intro exI conjI) (auto simp only: append.simps append_Nil2)
qed

section \<open>What the instruments miss\<close>

text \<open>
  The instruments count from their creation: a publisher that registered before and leaves
  after makes the OTLP gauge negative, while the Prometheus gauge is back at 0.
\<close>

theorem otlp_gauge_can_go_negative:
  "activePublishers (DecActivePublishers (snd (tryInit ''collector:4317'' (demo_collector True)
      (IncActivePublishers metrics_init)))) = Some (- 1)
   \<and> promActivePublishers (DecActivePublishers (snd (tryInit ''collector:4317'' (demo_collector True)
      (IncActivePublishers metrics_init)))) = 0"
  by (simp add: tryInit_def Let_def demo_collector_def instruments_def metric_defs metrics_init_def)

end
