(* ===== verification/Logging.thy ===== *)
theory Logging
  imports GoStrings
begin

text \<open>
  \<^verbatim>\<open>pkg/log/log.go\<close>: the logger the whole process shares.  A writer is a number; the
  lines written so far are kept with the writer they went to.  The message is what
  \<open>fmt\<close> makes of the format and its arguments; the time stamp that Go's logger puts in
  front of it is left out.
\<close>

datatype log_level = levelDebug | levelInfo | levelWarn | levelError

text \<open>The constants are numbered by \<open>iota\<close>.\<close>

fun level_number :: "log_level \<Rightarrow> nat" where
  "level_number levelDebug = 0"
| "level_number levelInfo = 1"
| "level_number levelWarn = 2"
| "level_number levelError = 3"

lemma level_number_inj: "level_number a = level_number b \<Longrightarrow> a = b"
  by (cases a; cases b) simp_all

instantiation log_level :: linorder
begin

definition less_eq_log_level :: "log_level \<Rightarrow> log_level \<Rightarrow> bool" where
  "less_eq_log_level a b \<longleftrightarrow> level_number a \<le> level_number b"

definition less_log_level :: "log_level \<Rightarrow> log_level \<Rightarrow> bool" where
  "less_log_level a b \<longleftrightarrow> level_number a < level_number b"

instance
  by standard (auto simp: less_eq_log_level_def less_log_level_def intro: level_number_inj)

end

type_synonym writer = nat

abbreviation stdout :: writer where "stdout \<equiv> 1"

record logger =
  log_writer :: writer
  logLevel :: log_level
  log_lines :: "(writer \<times> string) list"

definition logger_init :: logger where
  "logger_init = \<lparr>log_writer = stdout, logLevel = levelInfo, log_lines = []\<rparr>"

text \<open>
  \<open>strings.ToLower\<close>, exact for the strings whose lower-case form is ASCII: besides the
  ASCII capitals only U+0130 and U+212A have an ASCII letter as lower case.
\<close>

definition lower_byte :: "char \<Rightarrow> char" where
  "lower_byte c = (let k = of_char c :: nat in if 65 \<le> k \<and> k \<le> 90 then char_of (k + 32) else c)"

fun ToLower :: "string \<Rightarrow> string" where
  "ToLower (a # b # c # s) =
     (if a = CHR 0xC4 \<and> b = CHR 0xB0 then CHR ''i'' # ToLower (c # s)
      else if a = CHR 0xE2 \<and> b = CHR 0x84 \<and> c = CHR 0xAA then CHR ''k'' # ToLower s
      else lower_byte a # ToLower (b # c # s))"
| "ToLower [a, b] = (if a = CHR 0xC4 \<and> b = CHR 0xB0 then ''i'' else [lower_byte a, lower_byte b])"
| "ToLower [a] = [lower_byte a]"
| "ToLower [] = []"

definition level_of_name :: "string \<Rightarrow> log_level option" where
  "level_of_name level = (let l = ToLower level in
     if l = ''debug'' then Some levelDebug
     else if l = ''info'' then Some levelInfo
     else if l = ''warn'' then Some levelWarn
     else if l = ''error'' then Some levelError
     else None)"

text \<open>The result tells whether there was no error; a nil writer is \<open>None\<close>.\<close>

definition Configure :: "writer option \<Rightarrow> string \<Rightarrow> logger \<Rightarrow> bool \<times> logger" where
  "Configure w level lg =
     (let out = (case w of None \<Rightarrow> stdout | Some v \<Rightarrow> v);
          lg1 = lg\<lparr>log_writer := out\<rparr>
      in case level_of_name level of
        Some l \<Rightarrow> (True, lg1\<lparr>logLevel := l\<rparr>)
      | None \<Rightarrow> (False, lg1))"

definition log_output :: "log_level \<Rightarrow> string \<Rightarrow> string \<Rightarrow> logger \<Rightarrow> logger" where
  "log_output level prefix msg lg =
     (if level < logLevel lg then lg
      else lg\<lparr>log_lines := log_lines lg @ [(log_writer lg, prefix @ msg)]\<rparr>)"

definition Debug :: "string \<Rightarrow> logger \<Rightarrow> logger" where
  "Debug = log_output levelDebug ''DEBUG: ''"

definition Info :: "string \<Rightarrow> logger \<Rightarrow> logger" where
  "Info = log_output levelInfo ''INFO: ''"

definition Warn :: "string \<Rightarrow> logger \<Rightarrow> logger" where
  "Warn = log_output levelWarn ''WARN: ''"

definition Error :: "string \<Rightarrow> logger \<Rightarrow> logger" where
  "Error = log_output levelError ''ERROR: ''"

lemmas log_defs = log_output_def Debug_def Info_def Warn_def Error_def

text \<open>A message is written exactly when its level is at least the configured one.\<close>

lemma log_output_lines:
  "log_lines (log_output l prefix msg lg)
     = log_lines lg @ (if logLevel lg \<le> l then [(log_writer lg, prefix @ msg)] else [])"
  by (auto simp: log_output_def not_less)

text \<open>Errors are always written: no level is above theirs.\<close>

lemma Error_written: "log_lines (Error msg lg) = log_lines lg @ [(log_writer lg, ''ERROR: '' @ msg)]"
  by (cases "logLevel lg") (simp_all add: Error_def log_output_lines less_eq_log_level_def)

text \<open>An unknown level is reported after the writer has been replaced.\<close>

lemma Configure_unknown:
  "level_of_name level = None \<Longrightarrow> Configure (Some v) level lg = (False, lg\<lparr>log_writer := v\<rparr>)"
  by (simp add: Configure_def)

end
