(* ===== verification/GoTime.thy ===== *)
theory GoTime
  imports GoStrings
begin

text \<open>
  Durations in the configuration file: \<open>time.ParseDuration\<close> and the method
  \<open>UnmarshalJSON\<close> of \<open>Duration\<close> in \<^verbatim>\<open>pkg/topic/topic.go\<close>.

  \<open>time.ParseDuration\<close> computes with \<open>uint64\<close> and checks every step against overflow, so
  natural numbers with those checks are exact.  A fraction is computed with float64:
  \<open>uint64 (float64 f * (float64 unit / scale))\<close> is the argument \<open>fraction f unit scale\<close>.
\<close>

definition is_digit :: "char \<Rightarrow> bool" where
  "is_digit c \<longleftrightarrow> (48 :: nat) \<le> of_char c \<and> (of_char c :: nat) \<le> 57"

definition digit :: "char \<Rightarrow> nat" where
  "digit c = of_char c - 48"

text \<open>Nanoseconds of a unit; the micro sign is U+00B5 or U+03BC.\<close>

definition unit_scale :: "string \<Rightarrow> nat option" where
  "unit_scale u =
     (if u = ''ns'' then Some 1
      else if u = ''us'' \<or> u = [CHR 0xC2, CHR 0xB5, CHR ''s''] \<or> u = [CHR 0xCE, CHR 0xBC, CHR ''s'']
        then Some 1000
      else if u = ''ms'' then Some 1000000
      else if u = ''s'' then Some 1000000000
      else if u = ''m'' then Some 60000000000
      else if u = ''h'' then Some 3600000000000
      else None)"

fun leading_int :: "nat \<Rightarrow> string \<Rightarrow> (nat \<times> string) option" where
  "leading_int x [] = Some (x, [])"
| "leading_int x (c # s) =
     (if \<not> is_digit c then Some (x, c # s)
      else if 2 ^ 63 div 10 < x then None
      else let y = x * 10 + digit c in if 2 ^ 63 < y then None else leading_int y s)"

fun leading_fraction :: "bool \<Rightarrow> nat \<Rightarrow> nat \<Rightarrow> string \<Rightarrow> nat \<times> nat \<times> string" where
  "leading_fraction overflow x scale [] = (x, scale, [])"
| "leading_fraction overflow x scale (c # s) =
     (if \<not> is_digit c then (x, scale, c # s)
      else if overflow \<or> (2 ^ 63 - 1) div 10 < x then leading_fraction True x scale s
      else let y = x * 10 + digit c in
        if 2 ^ 63 < y then leading_fraction True x scale s
        else leading_fraction False y (scale * 10) s)"

definition unit_char :: "char \<Rightarrow> bool" where
  "unit_char c \<longleftrightarrow> c \<noteq> CHR ''.'' \<and> \<not> is_digit c"

text \<open>One number with its unit: nanoseconds and the rest of the string.\<close>

definition duration_part ::
    "(nat \<Rightarrow> nat \<Rightarrow> nat \<Rightarrow> nat) \<Rightarrow> string \<Rightarrow> (nat \<times> string) option" where
  "duration_part fraction s =
     (if unit_char (hd s) then None
      else case leading_int 0 s of
        None \<Rightarrow> None
      | Some (v, s1) \<Rightarrow>
          (let pre = (length s1 \<noteq> length s);
               dot = (s1 \<noteq> [] \<and> hd s1 = CHR ''.'');
               (f, scale, s2) = (if dot then leading_fraction False 0 1 (tl s1) else (0, 1, s1));
               post = (dot \<and> length s2 \<noteq> length (tl s1));
               u = takeWhile unit_char s2
           in if \<not> pre \<and> \<not> post then None
              else if u = [] then None
              else case unit_scale u of
                None \<Rightarrow> None
              | Some unit \<Rightarrow>
                  if 2 ^ 63 div unit < v then None
                  else let d = v * unit + (if 0 < f then fraction f unit scale else 0) in
                    if 2 ^ 63 < d then None else Some (d, dropWhile unit_char s2)))"

lemma leading_int_length: "leading_int x s = Some (v, t) \<Longrightarrow> length t \<le> length s"
  by (induction x s rule: leading_int.induct) (auto simp: Let_def split: if_splits)

lemma leading_fraction_length: "leading_fraction b x k s = (f, sc, t) \<Longrightarrow> length t \<le> length s"
  by (induction b x k s rule: leading_fraction.induct) (auto simp: Let_def split: if_splits)

lemma dropWhile_shorter: "takeWhile P s \<noteq> [] \<Longrightarrow> length (dropWhile P s) < length s"
  by (cases s) (auto simp: length_dropWhile_le less_Suc_eq_le split: if_splits)

lemma duration_part_shorter:
  assumes "duration_part fraction s = Some (d, t)"
  shows "length t < length s"
proof -
  obtain v s1 where s1: "leading_int 0 s = Some (v, s1)"
    using assms by (auto simp: duration_part_def split: if_splits option.splits)
  obtain f k s2 where s2: "(if s1 \<noteq> [] \<and> hd s1 = CHR ''.'' then leading_fraction False 0 1 (tl s1)
      else (0, 1, s1)) = (f, k, s2)" by (metis prod_cases3)
  have "t = dropWhile unit_char s2" "takeWhile unit_char s2 \<noteq> []"
    using assms s1 s2 by (auto simp: duration_part_def Let_def split: if_splits option.splits)
  then have "length t < length s2" using dropWhile_shorter by metis
  moreover have "length s2 \<le> length s1"
    using s2 leading_fraction_length [of False 0 1 "tl s1" f k s2] by (auto split: if_splits)
  ultimately show ?thesis using leading_int_length [OF s1] by simp
qed

function duration_sum :: "(nat \<Rightarrow> nat \<Rightarrow> nat \<Rightarrow> nat) \<Rightarrow> nat \<Rightarrow> string \<Rightarrow> nat option" where
  "duration_sum fraction d s =
     (if s = [] then Some d
      else case duration_part fraction s of
        None \<Rightarrow> None
      | Some (v, t) \<Rightarrow> if 2 ^ 63 < d + v then None else duration_sum fraction (d + v) t)"
  by pat_completeness auto
termination
  by (relation "measure (\<lambda>(_, _, s). length s)")
    (auto dest!: sym [of _ "duration_part _ _"] duration_part_shorter)

declare duration_sum.simps [simp del]

definition ParseDuration :: "(nat \<Rightarrow> nat \<Rightarrow> nat \<Rightarrow> nat) \<Rightarrow> string \<Rightarrow> int option" where
  "ParseDuration fraction s =
     (let neg = (s \<noteq> [] \<and> hd s = CHR ''-'');
          t = (if s \<noteq> [] \<and> (hd s = CHR ''-'' \<or> hd s = CHR ''+'') then tl s else s)
      in if t = ''0'' then Some 0
         else if t = [] then None
         else case duration_sum fraction 0 t of
           None \<Rightarrow> None
         | Some d \<Rightarrow> if neg then Some (- int d)
             else if 2 ^ 63 - 1 < d then None else Some (int d))"

text \<open>
  The method.  \<open>as_string\<close> and \<open>as_int\<close> are what \<open>json.Unmarshal\<close> makes of the bytes as
  a string and as an \<open>int64\<close>; \<open>None\<close> is its error.  The result is the new duration.
\<close>

definition UnmarshalJSON ::
    "(nat \<Rightarrow> nat \<Rightarrow> nat \<Rightarrow> nat) \<Rightarrow> (string \<Rightarrow> string option) \<Rightarrow> (string \<Rightarrow> int option) \<Rightarrow> string
      \<Rightarrow> int option" where
  "UnmarshalJSON fraction as_string as_int b = (case as_string b of
       Some s \<Rightarrow> ParseDuration fraction s
     | None \<Rightarrow> (case as_int b of
           Some n \<Rightarrow> Some n
         | None \<Rightarrow> None))"

section \<open>Whole numbers with a unit\<close>

lemma radix_val_mono: "radix_val 10 x s = Some v \<Longrightarrow> x \<le> v"
proof (induction s arbitrary: x)
  case (Cons c s)
  then obtain d where "radix_val 10 (x * 10 + d) s = Some v" by (auto split: option.splits if_splits)
  from Cons.IH [OF this] show ?case by simp
qed simp

lemma leading_int_radix:
  assumes "radix_val 10 x ds = Some v" and "v \<le> 2 ^ 63" and "rest = [] \<or> \<not> is_digit (hd rest)"
  shows "leading_int x (ds @ rest) = Some (v, rest)"
  using assms
proof (induction ds arbitrary: x)
  case Nil
  then show ?case by (cases rest) auto
next
  case (Cons c ds)
  then obtain k where k: "digit_val c = Some k" "k < 10" "radix_val 10 (x * 10 + k) ds = Some v"
    by (auto split: option.splits if_splits)
  then have c: "is_digit c" "digit c = k"
    by (auto simp: is_digit_def digit_def digit_val_def Let_def split: if_splits)
  have "x * 10 + k \<le> 2 ^ 63" using radix_val_mono [OF k(3)] Cons.prems(2) by simp
  with c k Cons show ?case by (simp add: Let_def)
qed

lemma unit_scale_chars:
  assumes "unit_scale u = Some k"
  shows "u \<noteq> []" "takeWhile unit_char u = u" "0 < k"
  using assms by (auto simp: unit_scale_def unit_char_def is_digit_def split: if_splits)

lemma unit_char_hd:
  assumes "unit_scale u = Some k"
  shows "\<not> is_digit (hd u)" "hd u \<noteq> CHR ''.''"
  using unit_scale_chars [OF assms] by (cases u; auto simp: unit_char_def split: if_splits)+

lemma radix_str_digit: "is_digit (hd (radix_str 10 n))"
proof -
  have "hd (radix_str 10 n) \<in> set (radix_str 10 n)" by simp
  then obtain d where "hd (radix_str 10 n) = digit_char d" "d < 10"
    using radix_str_chars [of 10 n] by fastforce
  then show ?thesis by (simp add: is_digit_def digit_char_def)
qed

lemma ParseDuration_whole:
  assumes "unit_scale u = Some k" and "int n * int k < 2 ^ 63"
  shows "ParseDuration fraction (show_int (int n) @ u) = Some (int n * int k)"
    and "ParseDuration fraction (CHR ''-'' # show_int (int n) @ u) = Some (- (int n * int k))"
proof -
  let ?s = "radix_str 10 n @ u"
  note u = unit_scale_chars [OF assms(1)] unit_char_hd [OF assms(1)]
  have nk: "n * k < 2 ^ 63" using assms(2) by (metis of_nat_less_iff of_nat_mult of_nat_numeral of_nat_power)
  then have n: "n \<le> 2 ^ 63 div k" using u(3) by (simp add: less_eq_div_iff_mult_less_eq)
  then have "n \<le> 2 ^ 63" using div_le_dividend order_trans by blast
  then have lead: "leading_int 0 ?s = Some (n, u)"
    using leading_int_radix [OF radix_val_str [of 10 n], of u] u(4) by simp
  have hd: "hd ?s = hd (radix_str 10 n)" by (cases "radix_str 10 n") auto
  have drop: "dropWhile unit_char u = []"
    using u(2) by (simp add: takeWhile_eq_all_conv dropWhile_eq_Nil_conv)
  have part: "duration_part fraction ?s = Some (n * k, [])"
    using radix_str_digit [of n] n nk u(1,5)
    by (simp add: duration_part_def Let_def lead hd unit_char_def [of "hd _"] u(2) assms(1) drop not_less)
  have sum: "duration_sum fraction 0 ?s = Some (n * k)"
    using nk u(1) by (simp add: duration_sum.simps [of _ _ "_ @ _"] part) (simp add: duration_sum.simps)
  have "?s \<noteq> ''0''" "?s \<noteq> []" using u by (auto simp: append_eq_Cons_conv is_digit_def)
  moreover have "hd ?s \<noteq> CHR ''-''" "hd ?s \<noteq> CHR ''+''"
    using radix_str_digit [of n] hd by (auto simp: is_digit_def)
  ultimately show "ParseDuration fraction (show_int (int n) @ u) = Some (int n * int k)"
    and "ParseDuration fraction (CHR ''-'' # show_int (int n) @ u) = Some (- (int n * int k))"
    using sum nk by (simp_all add: ParseDuration_def show_int_def)
qed

end
