(* ===== verification/Startup.thy ===== *)
theory Startup
  imports Server Otlp Logging GoTime
begin

text \<open>
  \<^verbatim>\<open>cmd/rtsper/main.go\<close>: from the flags, the environment and the configuration file to a
  running process, and its shutdown.  Parsing the command line, decoding JSON text and
  the HTTP server of the admin pages are library calls; what they give is an input.  The
  logger is configured, but the lines the start writes to it are left out.
\<close>

section \<open>Flags and their environment\<close>

record flags =
  fl_publishPort :: int
  fl_subscribePort :: int
  fl_adminPort :: int
  fl_maxPublishers :: int
  fl_maxSubscribersPerTopic :: int
  fl_publisherQueueSize :: int
  fl_subscriberQueueSize :: int
  fl_publisherGrace :: duration
  fl_logFile :: string
  fl_logLevel :: string
  fl_otelEndpoint :: string
  fl_disableOtel :: bool
  fl_autoMaxPublishers :: bool
  fl_publishersPerCPU :: int
  fl_perPublisherMB :: int
  fl_enableUDP :: bool
  fl_publisherUDPBase :: int
  fl_subscriberUDPBase :: int
  fl_udpPortStart :: int
  fl_udpPortEnd :: int
  fl_configPath :: string
  fl_clusterNodes :: string
  fl_nodeName :: string
  fl_enableProxy :: bool
  fl_proxyDialTO :: duration
  fl_proxyIOTo :: duration

definition default_flags :: flags where
  "default_flags = \<lparr>fl_publishPort = 9191, fl_subscribePort = 9192, fl_adminPort = 8080,
     fl_maxPublishers = 0, fl_maxSubscribersPerTopic = 5, fl_publisherQueueSize = 1024,
     fl_subscriberQueueSize = 256, fl_publisherGrace = 5 * second, fl_logFile = [],
     fl_logLevel = ''info'', fl_otelEndpoint = [], fl_disableOtel = False,
     fl_autoMaxPublishers = False, fl_publishersPerCPU = 10, fl_perPublisherMB = 50,
     fl_enableUDP = False, fl_publisherUDPBase = 0, fl_subscriberUDPBase = 0,
     fl_udpPortStart = 0, fl_udpPortEnd = 0, fl_configPath = [], fl_clusterNodes = [],
     fl_nodeName = [], fl_enableProxy = True, fl_proxyDialTO = 3 * second,
     fl_proxyIOTo = 30 * second\<rparr>"

text \<open>What the process finds in its environment; \<open>None\<close> is an error.\<close>

record host_env =
  getenv :: "string \<Rightarrow> string"
  hostname :: "string option"
  read_file :: "string \<Rightarrow> string option"
  unmarshal_config :: "string \<Rightarrow> config option"
  numCPU :: int
  collector :: otlp_env

definition or_env :: "host_env \<Rightarrow> string \<Rightarrow> string \<Rightarrow> string" where
  "or_env env name flag = (if flag = [] then (let v = getenv env name in if v \<noteq> [] then v else flag) else flag)"

definition env_fallback :: "host_env \<Rightarrow> flags \<Rightarrow> flags" where
  "env_fallback env fl =
     (let fl1 = fl\<lparr>fl_clusterNodes := or_env env ''CLUSTER_NODES'' (fl_clusterNodes fl)\<rparr>;
          fl2 = fl1\<lparr>fl_nodeName := or_env env ''NODE_NAME'' (fl_nodeName fl1)\<rparr>
      in fl2\<lparr>fl_otelEndpoint := or_env env ''OTEL_ENDPOINT'' (fl_otelEndpoint fl2)\<rparr>)"

section \<open>Steps of the start\<close>

definition init_cluster :: "host_env \<Rightarrow> flags \<Rightarrow> cluster_error + (flags \<times> cluster option)" where
  "init_cluster env fl =
     (if fl_clusterNodes fl \<noteq> []
      then let fl' = (if fl_nodeName fl = []
                then (case hostname env of Some hn \<Rightarrow> fl\<lparr>fl_nodeName := hn\<rparr> | None \<Rightarrow> fl)
                else fl)
        in case NewFromCSV (fl_clusterNodes fl') (fl_nodeName fl') of
          Inl e \<Rightarrow> Inl e
        | Inr c \<Rightarrow> Inr (fl', Some c)
      else Inr (fl, None))"

definition zero_config :: config where
  "zero_config = \<lparr>PublishPort = 0, SubscribePort = 0, MaxPublishers = 0, MaxSubscribersPerTopic = 0,
     PublisherQueueSize = 0, SubscriberQueueSize = 0, PublisherGracePeriod = 0, EnableUDP = False,
     PublisherUDPBase = 0, SubscriberUDPBase = 0\<rparr>"

definition loadConfig :: "host_env \<Rightarrow> string \<Rightarrow> config option" where
  "loadConfig env path =
     (if path = [] then Some zero_config
      else case read_file env path of
        None \<Rightarrow> None
      | Some b \<Rightarrow> (case unmarshal_config env b of
            None \<Rightarrow> None
          | Some cfg \<Rightarrow> Some cfg))"

definition default_if_zero :: "int \<Rightarrow> int \<Rightarrow> int" where
  "default_if_zero v d = (if v = 0 then d else v)"

definition merge_config :: "flags \<Rightarrow> config \<Rightarrow> config" where
  "merge_config fl cfg =
     (let cfg1 = cfg
            \<lparr>PublisherQueueSize := default_if_zero (PublisherQueueSize cfg) (fl_publisherQueueSize fl),
             SubscriberQueueSize := default_if_zero (SubscriberQueueSize cfg) (fl_subscriberQueueSize fl),
             MaxPublishers := default_if_zero (MaxPublishers cfg) (fl_maxPublishers fl),
             MaxSubscribersPerTopic := default_if_zero (MaxSubscribersPerTopic cfg) (fl_maxSubscribersPerTopic fl),
             PublishPort := default_if_zero (PublishPort cfg) (fl_publishPort fl),
             SubscribePort := default_if_zero (SubscribePort cfg) (fl_subscribePort fl),
             PublisherGracePeriod := default_if_zero (PublisherGracePeriod cfg) (fl_publisherGrace fl)\<rparr>;
          cfg2 = (if fl_enableUDP fl then cfg1\<lparr>EnableUDP := True\<rparr> else cfg1);
          cfg3 = (if fl_publisherUDPBase fl \<noteq> 0 then cfg2\<lparr>PublisherUDPBase := fl_publisherUDPBase fl\<rparr> else cfg2)
      in if fl_subscriberUDPBase fl \<noteq> 0 then cfg3\<lparr>SubscriberUDPBase := fl_subscriberUDPBase fl\<rparr> else cfg3)"

datatype startup_error =
    ClusterError cluster_error
  | InvalidLogLevel
  | ConfigNotLoaded
  | AllocatorNotCreated
  | NoPublisherPair
  | NoSubscriberPair
  | InvalidUDP udp_config_error

text \<open>
  The UDP allocator and its two reservations.  The release function the code keeps is the
  list of base ports it releases, in order.
\<close>

definition udp_range :: "flags \<Rightarrow> int \<times> int" where
  "udp_range fl = (if fl_udpPortStart fl = 0 \<or> fl_udpPortEnd fl = 0 then (5000, 6000)
     else (fl_udpPortStart fl, fl_udpPortEnd fl))"

definition reserve_udp ::
    "flags \<Rightarrow> config \<Rightarrow> udp_os \<Rightarrow> metrics
      \<Rightarrow> (startup_error + (config \<times> (allocator \<times> int list) option)) \<times> udp_os \<times> metrics" where
  "reserve_udp fl cfg os mt =
     (if \<not> EnableUDP cfg then (Inr (cfg, None), os, mt)
      else case NewAllocator (fst (udp_range fl)) (snd (udp_range fl)) of
        None \<Rightarrow> (Inl AllocatorNotCreated, os, mt)
      | Some a \<Rightarrow> (case ReservePair a os mt of
          (None, a1, os1, mt1) \<Rightarrow> (Inl NoPublisherPair, os1, mt1)
        | (Some p1, a1, os1, mt1) \<Rightarrow> (case ReservePair a1 os1 mt1 of
            (None, a2, os2, mt2) \<Rightarrow> (Inl NoSubscriberPair, snd (release p1 (a2, os2)), mt2)
          | (Some p2, a2, os2, mt2) \<Rightarrow>
              (Inr (cfg\<lparr>PublisherUDPBase := p1, SubscriberUDPBase := p2\<rparr>, Some (a2, [p1, p2])), os2, mt2))))"

definition allocatorRelease :: "int list \<Rightarrow> allocator \<times> udp_os \<Rightarrow> allocator \<times> udp_os" where
  "allocatorRelease bases s = foldl (\<lambda>s p. release p s) s bases"

text \<open>Sizing from \<^verbatim>\<open>/proc/meminfo\<close> and the number of processors; \<open>None\<close> is an error.\<close>

fun find_mem_total :: "string list \<Rightarrow> int option" where
  "find_mem_total [] = None"
| "find_mem_total (line # ls) =
     (if HasPrefix line ''MemTotal:''
      then let fields = Fields line in
        if length fields < 2 then None
        else (case Atoi (fields ! 1) of None \<Rightarrow> None | Some kb \<Rightarrow> Some (go_quot kb 1024))
      else find_mem_total ls)"

definition readTotalMemoryMB :: "host_env \<Rightarrow> int option" where
  "readTotalMemoryMB env = (case read_file env ''/proc/meminfo'' of
       None \<Rightarrow> None
     | Some s \<Rightarrow> find_mem_total (Split (CHR 0x0A) s))"

text \<open>\<open>None\<close> is the panic of the division by zero.\<close>

definition auto_size :: "host_env \<Rightarrow> flags \<Rightarrow> int option" where
  "auto_size env fl =
     (let totalMemMB = (case readTotalMemoryMB env of Some v \<Rightarrow> v | None \<Rightarrow> 1024 * 16);
          cpuLimit = wrap64 (numCPU env * fl_publishersPerCPU fl)
      in if fl_perPublisherMB fl = 0 then None
         else let memLimit = wrap64 (go_quot totalMemMB (fl_perPublisherMB fl));
                  computed = (if memLimit < cpuLimit then memLimit else cpuLimit)
           in Some (if computed < 1 then 1 else computed))"

section \<open>The start\<close>

text \<open>What the whole process shares, and what runs once the servers are started.\<close>

record process =
  p_log :: logger
  p_world :: world
  p_os :: udp_os

text \<open>The pages of the admin server.\<close>

datatype admin_page = StatusPage | ClusterPage | DrainPage | MetricsPage

definition admin_routes :: "cluster option \<Rightarrow> (string \<times> admin_page) list" where
  "admin_routes cl = [(''/status'', StatusPage)]
     @ (if cl \<noteq> None then [(''/cluster'', ClusterPage), (''/cluster/drain'', DrainPage)] else [])
     @ [(''/metrics'', MetricsPage)]"

record running =
  r_manager :: manager
  r_server :: server
  r_handler :: handler
  r_pub :: rtsp_settings
  r_sub :: rtsp_settings
  r_alloc :: "(allocator \<times> int list) option"
  r_admin :: string
  r_routes :: "(string \<times> admin_page) list"
  r_retry :: "int option"

datatype outcome = Exit startup_error | Panic | Running running

text \<open>The rotated log file, as a writer.\<close>

definition log_file :: writer where
  "log_file = 2"

text \<open>The log and the configuration: everything before the first port is reserved.\<close>

definition prepare :: "host_env \<Rightarrow> flags \<Rightarrow> logger \<Rightarrow> (startup_error + (flags \<times> cluster option \<times> config)) \<times> logger" where
  "prepare env fl0 lg =
     (let fl1 = env_fallback env fl0 in
      case init_cluster env fl1 of
        Inl e \<Rightarrow> (Inl (ClusterError e), lg)
      | Inr (fl, cl) \<Rightarrow>
          (let w = (if fl_logFile fl \<noteq> [] then Some log_file else Some stdout)
           in case Configure w (fl_logLevel fl) lg of
             (False, lg1) \<Rightarrow> (Inl InvalidLogLevel, lg1)
           | (True, lg1) \<Rightarrow> (case loadConfig env (fl_configPath fl) of
                 None \<Rightarrow> (Inl ConfigNotLoaded, lg1)
               | Some fileCfg \<Rightarrow> (Inr (fl, cl, merge_config fl fileCfg), lg1))))"

text \<open>The servers, from the final configuration.\<close>

definition start_servers ::
    "flags \<Rightarrow> config \<Rightarrow> cluster option \<Rightarrow> (allocator \<times> int list) option \<Rightarrow> int option \<Rightarrow> running" where
  "start_servers fl cfg cl alloc retry =
     (let m = NewManager cfg;
          srv = NewServer (PublishPort cfg) (SubscribePort cfg) (map_option fst alloc) cl
                  (fl_enableProxy fl) (fl_proxyDialTO fl) (fl_proxyIOTo fl)
      in case Start srv m of (h, pub, sub) \<Rightarrow>
        \<lparr>r_manager = m, r_server = srv, r_handler = h, r_pub = pub, r_sub = sub, r_alloc = alloc,
         r_admin = CHR '':'' # show_int (fl_adminPort fl), r_routes = admin_routes cl, r_retry = retry\<rparr>)"

definition main_start :: "host_env \<Rightarrow> flags \<Rightarrow> process \<Rightarrow> outcome \<times> process" where
  "main_start env fl0 pr = (case prepare env fl0 (p_log pr) of
       (Inl e, lg) \<Rightarrow> (Exit e, pr\<lparr>p_log := lg\<rparr>)
     | (Inr (fl, cl, cfg), lg) \<Rightarrow>
         (case reserve_udp fl cfg (p_os pr) (wmetrics (p_world pr)) of
            (Inl e, os, mt) \<Rightarrow> (Exit e, pr\<lparr>p_log := lg, p_os := os,
                p_world := with_metrics (\<lambda>_. mt) (p_world pr)\<rparr>)
          | (Inr (cfg1, alloc), os, mt) \<Rightarrow>
              (case (if EnableUDP cfg1 \<and> alloc = None
                     then validateUDPConfig (PublisherUDPBase cfg1) (SubscriberUDPBase cfg1) os
                     else (None, os)) of
                 (Some e, os1) \<Rightarrow> (Exit (InvalidUDP e), pr\<lparr>p_log := lg,
                     p_os := os1, p_world := with_metrics (\<lambda>_. mt) (p_world pr)\<rparr>)
               | (None, os1) \<Rightarrow>
                   (case (if fl_disableOtel fl then (None, mt)
                          else if fl_otelEndpoint fl \<noteq> [] then InitOTLP (fl_otelEndpoint fl) (collector env) mt
                          else (None, mt)) of
                      (retry, mt1) \<Rightarrow>
                        (let pr1 = \<lparr>p_log = lg, p_world = with_metrics (\<lambda>_. mt1) (p_world pr), p_os = os1\<rparr> in
                         if fl_autoMaxPublishers fl
                         then (case auto_size env fl of
                             None \<Rightarrow> (Panic, pr1)
                           | Some n \<Rightarrow>
                               (Running (start_servers fl (cfg1\<lparr>MaxPublishers := n\<rparr>) cl alloc retry), pr1))
                         else (Running (start_servers fl cfg1 cl alloc retry), pr1))))))"

text \<open>
  After the signal: the servers are closed, which ends the sessions, the manager is shut
  down (the orders of both are arguments) and the ports are released.
\<close>

definition main_stop ::
    "session_ptr list \<Rightarrow> (string \<times> string list) list \<Rightarrow> running \<Rightarrow> process \<Rightarrow> (running \<times> process) option" where
  "main_stop sessions order r pr =
     (case server_Close sessions (r_handler r) (r_manager r) (p_world pr) of (h, m0, w0) \<Rightarrow>
       (case Shutdown order m0 w0 of
          None \<Rightarrow> None
        | Some (m, w) \<Rightarrow>
            (let r' = r\<lparr>r_handler := h, r_manager := m\<rparr> in
             case r_alloc r of
               None \<Rightarrow> Some (r', pr\<lparr>p_world := w\<rparr>)
             | Some (a, bases) \<Rightarrow> (case allocatorRelease bases (a, p_os pr) of
                   (a', os') \<Rightarrow> Some (r'\<lparr>r_alloc := Some (a', bases)\<rparr>,
                     pr\<lparr>p_world := w, p_os := os'\<rparr>)))))"

end
