(* ===== verification/StartupTheorems.thy ===== *)
theory StartupTheorems
  imports Startup AllocTheorems System
begin

text \<open>
  The properties of the start: which value of which source a setting ends up with, that
  the servers get the ports the allocator bound for them, and that a start that fails
  leaves no port open.
\<close>

section \<open>UDP ports\<close>

definition same_ports :: "udp_os \<Rightarrow> udp_os \<Rightarrow> bool" where
  "same_ports os os' \<longleftrightarrow> (\<forall>x. port_open os' x = port_open os x)"

lemma same_ports_sockets: "sockets os' = sockets os \<Longrightarrow> same_ports os os'"
  by (simp add: same_ports_def port_open_def)

text \<open>Two pairs reserved one after the other, of an allocator that had none of them.\<close>

definition two_pairs :: "allocator \<Rightarrow> udp_os \<Rightarrow> int \<Rightarrow> int \<Rightarrow> udp_os \<Rightarrow> bool" where
  "two_pairs a os p q os0 \<longleftrightarrow> alloc_ok a os \<and> even p \<and> even q \<and> p \<noteq> q
     \<and> GetConn a p \<noteq> None \<and> GetConn a q \<noteq> None
     \<and> (\<forall>x \<in> {p, p + 1, q, q + 1}. 0 < x \<and> x \<le> 65535 \<and> \<not> port_open os0 x)
     \<and> (\<forall>x. port_open os x \<longleftrightarrow> port_open os0 x \<or> x \<in> {p, p + 1, q, q + 1})"

lemma two_pairs_release:
  assumes "two_pairs a os p q os0"
  shows "same_ports os0 (snd (allocatorRelease [p, q] (a, os)))"
proof -
  note t = assms [unfolded two_pairs_def]
  obtain a1 os1 where 1: "release p (a, os) = (a1, os1)" by fastforce
  obtain a2 os2 where 2: "release q (a1, os1) = (a2, os2)" by fastforce
  have ok: "alloc_ok a os" "even p" "even q" using t by simp_all
  have ok1: "alloc_ok a1 os1" using alloc_ok_release [OF ok(1,2)] 1 by simp
  have "q \<noteq> p \<and> q \<noteq> p + 1" using t by (metis even_plus_one_iff)
  then have "GetConn a1 q \<noteq> None"
    using release_reserved(1) [OF ok(1,2) 1, of q] t by (simp add: GetConn_def)
  from release_reserved(4) [OF ok1 ok(3) 2 this] release_reserved(4) [OF ok(1,2) 1] t
  have "port_open os2 x \<longleftrightarrow> port_open os0 x" for x by auto
  with 1 2 show ?thesis by (simp add: allocatorRelease_def same_ports_def)
qed

lemma two_pairs_conn:
  assumes "two_pairs a os p q os0" and "x \<in> {p, p + 1, q, q + 1}"
  shows "\<exists>c. ListenPacket a (port_address x) = PreBound c \<and> fmlookup (sockets os) c = Some x"
proof -
  note t = assms(1) [unfolded two_pairs_def]
  then have ok: "alloc_ok a os" by simp
  have "GetConn a (p + 1) \<noteq> None" "GetConn a (q + 1) \<noteq> None"
    using alloc_okD(3) [OF ok, of p] alloc_okD(3) [OF ok, of q] t by (simp_all add: GetConn_def)
  then obtain c where c: "GetConn a x = Some c" using t assms(2) by auto
  moreover have "0 \<le> x" "x < 2 ^ 63" using t assms(2) by fastforce+
  ultimately show ?thesis
    using alloc_okD(1) [OF ok, of x c] by (simp add: ListenPacket_port_address GetConn_def)
qed

lemma reserve_two:
  assumes "alloc_ok a os" and "ReservePair a os mt = (Some p, a1, os1, mt1)"
    and "ReservePair a1 os1 mt1 = (Some q, a2, os2, mt2)"
  shows "two_pairs a2 os2 p q os"
proof -
  have ops: "reserve_op (a, os, mt) = (Some p, a1, os1, mt1)"
    "reserve_op (a1, os1, mt1) = (Some q, a2, os2, mt2)" "alloc_inv (a, os, mt)"
    using assms by (simp_all add: reserve_op_def alloc_inv_def)
  note two = pairs.two_reservations [OF ops(3,1,2)]
  have ok1: "alloc_ok a1 os1" using assms(1,2) by (rule ReservePair_ok)
  note one = ReservePair_Some [OF assms(1,2)] and second = ReservePair_Some [OF ok1 assms(3)]
  have free: "bindable os p" "bindable os (p + 1)" "bindable os1 q" "bindable os1 (q + 1)"
    using one(3) second(3) by (simp_all add: pair_free_def)
  have ports: "port_open os1 x \<longleftrightarrow> port_open os x \<or> x = p \<or> x = p + 1"
    "port_open os2 x \<longleftrightarrow> port_open os1 x \<or> x = q \<or> x = q + 1" for x
    using reserved_pair_ports [OF one(2)] reserved_pair_ports [OF second(2)] by simp_all
  have "p \<noteq> q" using two(3) by auto
  moreover have "GetConn a2 p \<noteq> None"
    using two(1,4) by (auto simp: held_pairs_def)
  ultimately show ?thesis
    using two(1,2,5) second(4) free ports
    by (auto simp: two_pairs_def alloc_inv_def bindable_def)
qed

lemma reserve_one_release:
  assumes "alloc_ok a os" and "ReservePair a os mt = (Some p, a1, os1, mt1)"
    and "ReservePair a1 os1 mt1 = (None, a2, os2, mt2)"
  shows "same_ports os (snd (release p (a2, os2)))" "os_ok (snd (release p (a2, os2)))"
proof -
  have ok1: "alloc_ok a1 os1" using assms(1,2) by (rule ReservePair_ok)
  note one = ReservePair_Some [OF assms(1,2)]
  have "a2 = a1 \<and> sockets os2 = sockets os1 \<and> os_ok os2"
    using alloc_ok_os [OF ok1]
  proof (cases rule: ReservePair_cases [of os1 a1 mt1])
    case (exhausted os')
    then show ?thesis using assms(3) by simp
  qed (use assms(3) in simp)
  then have a2: "a2 = a1" "sockets os2 = sockets os1" and ok2: "alloc_ok a2 os2"
    using alloc_ok_cong [OF ok1] by auto
  obtain a3 os3 where rel: "release p (a2, os2) = (a3, os3)" by fastforce
  have "port_open os3 x \<longleftrightarrow> port_open os x" for x
    using release_reserved(4) [OF ok2 one(1) rel] one(4) a2 reserved_pair_ports [OF one(2), of x]
      one(3) by (auto simp: pair_free_def bindable_def port_open_def)
  with rel show "same_ports os (snd (release p (a2, os2)))" by (simp add: same_ports_def)
  show "os_ok (snd (release p (a2, os2)))"
    using alloc_ok_release [OF ok2 one(1)] rel alloc_ok_os by auto
qed

lemma reserve_udp_cases:
  assumes "os_ok os"
  obtains (off) "\<not> EnableUDP cfg" "reserve_udp fl cfg os mt = (Inr (cfg, None), os, mt)"
    | (failed) e os' mt' where "reserve_udp fl cfg os mt = (Inl e, os', mt')" "same_ports os os'"
    | (pairs) a p q os' mt' where "EnableUDP cfg"
        "reserve_udp fl cfg os mt
          = (Inr (cfg\<lparr>PublisherUDPBase := p, SubscriberUDPBase := q\<rparr>, Some (a, [p, q])), os', mt')"
        "two_pairs a os' p q os"
proof (cases "EnableUDP cfg")
  case True
  show ?thesis
  proof (cases "NewAllocator (fst (udp_range fl)) (snd (udp_range fl))")
    case None
    with True show ?thesis
      by (intro failed [of AllocatorNotCreated os mt])
        (simp_all add: reserve_udp_def same_ports_def)
  next
    case (Some a)
    have ok: "alloc_ok a os" using alloc_ok_NewAllocator [OF Some assms] .
    have eq: "reserve_udp fl cfg os mt = (case ReservePair a os mt of
          (None, a1, os1, mt1) \<Rightarrow> (Inl NoPublisherPair, os1, mt1)
        | (Some p1, a1, os1, mt1) \<Rightarrow> (case ReservePair a1 os1 mt1 of
            (None, a2, os2, mt2) \<Rightarrow> (Inl NoSubscriberPair, snd (release p1 (a2, os2)), mt2)
          | (Some p2, a2, os2, mt2) \<Rightarrow>
              (Inr (cfg\<lparr>PublisherUDPBase := p1, SubscriberUDPBase := p2\<rparr>, Some (a2, [p1, p2])), os2, mt2)))"
      using True Some by (simp add: reserve_udp_def)
    obtain r1 a1 os1 mt1 where r1: "ReservePair a os mt = (r1, a1, os1, mt1)" by (metis prod_cases4)
    obtain r2 a2 os2 mt2 where r2: "ReservePair a1 os1 mt1 = (r2, a2, os2, mt2)" by (metis prod_cases4)
    show ?thesis
    proof (cases r1)
      case None
      have "same_ports os os1"
        using assms
      proof (cases rule: ReservePair_cases [of os a mt])
        case (exhausted os')
        then show ?thesis using r1 None by (simp add: same_ports_sockets)
      qed (use r1 None in simp)
      with eq r1 None show ?thesis by (intro failed) simp_all
    next
      case p: (Some p)
      show ?thesis
      proof (cases r2)
        case None
        with eq r1 r2 p reserve_one_release(1) [OF ok r1 [unfolded p] r2 [unfolded None]] show ?thesis
          by (intro failed) simp_all
      next
        case q: (Some q)
        with eq r1 r2 p reserve_two [OF ok r1 [unfolded p] r2 [unfolded q]] True show ?thesis
          by (intro pairs) simp_all
      qed
    qed
  qed
qed (simp add: off reserve_udp_def)

section \<open>The whole start\<close>

text \<open>The reservation as it ends when it succeeds: no UDP, or two pairs.\<close>

definition udp_result ::
    "config \<Rightarrow> config \<Rightarrow> (allocator \<times> int list) option \<Rightarrow> udp_os \<Rightarrow> udp_os \<Rightarrow> bool" where
  "udp_result cfg cfg1 alloc os0 os \<longleftrightarrow> (case alloc of
       None \<Rightarrow> \<not> EnableUDP cfg \<and> cfg1 = cfg \<and> os = os0
     | Some (a, bases) \<Rightarrow> EnableUDP cfg \<and> (\<exists>p q. bases = [p, q] \<and> two_pairs a os p q os0
         \<and> cfg1 = cfg\<lparr>PublisherUDPBase := p, SubscriberUDPBase := q\<rparr>))"

definition final_config :: "host_env \<Rightarrow> flags \<Rightarrow> config \<Rightarrow> config option" where
  "final_config env fl cfg = (if fl_autoMaxPublishers fl
     then map_option (\<lambda>n. cfg\<lparr>MaxPublishers := n\<rparr>) (auto_size env fl) else Some cfg)"

lemma main_start_cases:
  assumes "os_ok (p_os pr)" and "main_start env fl0 pr = (out, pr')"
  obtains (exit) e where "out = Exit e" "same_ports (p_os pr) (p_os pr')"
    | (panic) fl cl cfg lg cfg1 where "out = Panic"
        "prepare env fl0 (p_log pr) = (Inr (fl, cl, cfg), lg)" "final_config env fl cfg1 = None"
    | (running) fl cl cfg lg cfg1 cfg2 alloc retry
        where "out = Running (start_servers fl cfg2 cl alloc retry)"
        "prepare env fl0 (p_log pr) = (Inr (fl, cl, cfg), lg)"
        "udp_result cfg cfg1 alloc (p_os pr) (p_os pr')"
        "final_config env fl cfg1 = Some cfg2"
proof -
  obtain r lg where prep: "prepare env fl0 (p_log pr) = (r, lg)" by fastforce
  show ?thesis
  proof (cases r)
    case (Inl e)
    with prep assms(2) show ?thesis by (intro exit [of e]) (auto simp: main_start_def same_ports_def)
  next
    case (Inr k)
    obtain fl cl cfg where k: "k = (fl, cl, cfg)" by (metis prod_cases3)
    let ?mt = "wmetrics (p_world pr)"
    define otlp where "otlp = (\<lambda>mt. if fl_disableOtel fl then (None, mt)
      else if fl_otelEndpoint fl \<noteq> [] then InitOTLP (fl_otelEndpoint fl) (collector env) mt else (None, mt))"
    have go: ?thesis if res: "reserve_udp fl cfg (p_os pr) ?mt = (Inr (cfg1, alloc), os, mt)"
      and udp: "udp_result cfg cfg1 alloc (p_os pr) os" for cfg1 alloc os mt
    proof -
      have none: "\<not> (EnableUDP cfg1 \<and> alloc = None)"
        using udp by (cases alloc) (auto simp: udp_result_def)
      obtain retry mt1 where o: "otlp mt = (retry, mt1)" by fastforce
      define pr1 where "pr1 = \<lparr>p_log = lg, p_world = with_metrics (\<lambda>_. mt1) (p_world pr), p_os = os\<rparr>"
      have eq: "main_start env fl0 pr = (case final_config env fl cfg1 of
          None \<Rightarrow> (Panic, pr1)
        | Some cfg2 \<Rightarrow> (Running (start_servers fl cfg2 cl alloc retry), pr1))"
        unfolding main_start_def prep Inr k
        using o res none by (auto simp: otlp_def Let_def pr1_def final_config_def split: option.split)
      show ?thesis
      proof (cases "final_config env fl cfg1")
        case None
        with eq assms(2) prep Inr k show ?thesis by (intro panic [of fl cl cfg lg cfg1]) simp_all
      next
        case (Some cfg2)
        with eq assms(2) prep Inr k udp show ?thesis
          by (intro running [of fl cfg2 cl alloc retry cfg lg cfg1]) (auto simp: pr1_def)
      qed
    qed
    show ?thesis
      using assms(1)
    proof (cases rule: reserve_udp_cases [of "p_os pr" cfg fl ?mt])
      case off
      then show ?thesis by (intro go) (auto simp: udp_result_def)
    next
      case (failed e os' mt')
      with prep Inr k assms(2) show ?thesis by (intro exit [of e]) (auto simp: main_start_def)
    next
      case (pairs a p q os' mt')
      then show ?thesis by (intro go) (auto simp: udp_result_def)
    qed
  qed
qed

text \<open>What the release on shutdown leaves open.\<close>

lemma main_start_release:
  assumes "os_ok (p_os pr)" and "main_start env fl pr = (Running r, pr')"
  shows "case r_alloc r of None \<Rightarrow> same_ports (p_os pr) (p_os pr')
    | Some (a, bases) \<Rightarrow> same_ports (p_os pr) (snd (allocatorRelease bases (a, p_os pr')))"
  using assms
proof (cases rule: main_start_cases)
  case (running fl' cl cfg lg cfg1 cfg2 alloc retry)
  have "r_alloc r = alloc"
    using running(1) by (simp add: start_servers_def Start_def Let_def)
  with running(3) show ?thesis
    by (auto simp: udp_result_def same_ports_def two_pairs_release [unfolded same_ports_def]
        split: option.splits)
qed simp_all

text \<open>C35: A start that ends with an error leaves open exactly the ports that were open before.
  A start that succeeds with UDP holds two distinct even ports that were free, each with
  its successor; the two servers listen on them, and get for each of the four addresses
  the socket the allocator has bound to that port.  The release on shutdown leaves open
  exactly the ports that were open before the start.\<close>

theorem startup_udp_ports:
  assumes "os_ok (p_os pr)" and "main_start env fl pr = (out, pr')"
  shows "case out of
      Exit e \<Rightarrow> \<forall>x. port_open (p_os pr') x = port_open (p_os pr) x
    | Panic \<Rightarrow> True
    | Running r \<Rightarrow> (case r_alloc r of
        None \<Rightarrow> UDPRTPAddress (r_pub r) = None \<and> UDPRTPAddress (r_sub r) = None
          \<and> (\<forall>x. port_open (p_os pr') x = port_open (p_os pr) x)
      | Some (a, bases) \<Rightarrow> \<exists>p q. bases = [p, q] \<and> even p \<and> even q \<and> p \<noteq> q
          \<and> UDPRTPAddress (r_pub r) = Some (port_address p)
          \<and> UDPRTCPAddress (r_pub r) = Some (port_address (p + 1))
          \<and> UDPRTPAddress (r_sub r) = Some (port_address q)
          \<and> UDPRTCPAddress (r_sub r) = Some (port_address (q + 1))
          \<and> (\<forall>x \<in> {p, p + 1, q, q + 1}. \<not> port_open (p_os pr) x
              \<and> (\<exists>c. ListenPacket a (port_address x) = PreBound c
                  \<and> fmlookup (sockets (p_os pr')) c = Some x))
          \<and> (\<forall>x. port_open (snd (allocatorRelease bases (a, p_os pr'))) x = port_open (p_os pr) x))"
  using assms
proof (cases rule: main_start_cases)
  case (exit e)
  then show ?thesis by (simp add: same_ports_def)
next
  case panic
  then show ?thesis by simp
next
  case (running fl' cl cfg lg cfg1 cfg2 alloc retry)
  define r where "r = start_servers fl' cfg2 cl alloc retry"
  then have out: "out = Running r" using running(1) by simp
  have udp: "EnableUDP cfg2 = EnableUDP cfg1" "PublisherUDPBase cfg2 = PublisherUDPBase cfg1"
    "SubscriberUDPBase cfg2 = SubscriberUDPBase cfg1"
    using running(4) by (auto simp: final_config_def split: if_splits)
  have sides: "UDPRTPAddress (r_pub r) = (if EnableUDP cfg1 \<and> 0 < PublisherUDPBase cfg1 then Some (port_address (PublisherUDPBase cfg1)) else None)"
    "UDPRTCPAddress (r_pub r) = (if EnableUDP cfg1 \<and> 0 < PublisherUDPBase cfg1 then Some (port_address (PublisherUDPBase cfg1 + 1)) else None)"
    "UDPRTPAddress (r_sub r) = (if EnableUDP cfg1 \<and> 0 < SubscriberUDPBase cfg1 then Some (port_address (SubscriberUDPBase cfg1)) else None)"
    "UDPRTCPAddress (r_sub r) = (if EnableUDP cfg1 \<and> 0 < SubscriberUDPBase cfg1 then Some (port_address (SubscriberUDPBase cfg1 + 1)) else None)"
    "r_alloc r = alloc"
    by (simp_all add: r_def start_servers_def Start_def Let_def rtsp_server_settings_def Config_def
        NewManager_def udp)
  show ?thesis
  proof (cases alloc)
    case None
    with running(3) sides show ?thesis by (simp add: out udp_result_def)
  next
    case (Some ab)
    then obtain a p q where ab: "ab = (a, [p, q])" and two: "two_pairs a (p_os pr') p q (p_os pr)"
      and cfg1: "cfg1 = cfg\<lparr>PublisherUDPBase := p, SubscriberUDPBase := q\<rparr>" "EnableUDP cfg"
      using running(3) by (auto simp: udp_result_def)
    have "r_alloc r = Some (a, [p, q])" using sides(5) Some ab by simp
    moreover have "0 < p" "0 < q" "even p" "even q" "p \<noteq> q" using two by (simp_all add: two_pairs_def)
    moreover have "\<forall>x \<in> {p, p + 1, q, q + 1}. \<not> port_open (p_os pr) x
        \<and> (\<exists>c. ListenPacket a (port_address x) = PreBound c \<and> fmlookup (sockets (p_os pr')) c = Some x)"
      using two_pairs_conn [OF two] two by (simp add: two_pairs_def)
    moreover have "\<forall>x. port_open (snd (allocatorRelease [p, q] (a, p_os pr'))) x = port_open (p_os pr) x"
      using two_pairs_release [OF two] by (simp add: same_ports_def)
    ultimately show ?thesis
      using sides cfg1 by (simp add: out)
  qed
qed

text \<open>The start counts reservations and may create the OTLP instruments; the gauges of
  publishers and subscribers stay.\<close>

definition same_gauges :: "metrics \<Rightarrow> metrics \<Rightarrow> bool" where
  "same_gauges mt mt' \<longleftrightarrow> promActivePublishers mt' = promActivePublishers mt
     \<and> promActiveSubscribers mt' = promActiveSubscribers mt"

lemma ReservePair_gauges:
  assumes "os_ok os" and "ReservePair a os mt = (r, a', os', mt')"
  shows "same_gauges mt mt'" and "os_ok os'"
proof -
  have "same_gauges mt mt' \<and> os_ok os'"
    using assms(1)
  proof (cases rule: ReservePair_cases [of os a mt])
    case (reserved q a1 os1)
    with assms(2) show ?thesis by (auto simp: same_gauges_def count_reservation_def metric_defs)
  next
    case (exhausted os1)
    with assms(2) show ?thesis by (auto simp: same_gauges_def)
  qed
  then show "same_gauges mt mt'" and "os_ok os'" by simp_all
qed

lemma reserve_udp_gauges:
  assumes "os_ok os" and "reserve_udp fl cfg os mt = (r, os', mt')"
  shows "same_gauges mt mt'"
proof (cases "NewAllocator (fst (udp_range fl)) (snd (udp_range fl))")
  case None
  with assms(2) show ?thesis by (auto simp: reserve_udp_def same_gauges_def split: if_splits)
next
  case (Some a)
  obtain r1 a1 os1 mt1 where r1: "ReservePair a os mt = (r1, a1, os1, mt1)" by (metis prod_cases4)
  obtain r2 a2 os2 mt2 where r2: "ReservePair a1 os1 mt1 = (r2, a2, os2, mt2)" by (metis prod_cases4)
  have "same_gauges mt mt1" "same_gauges mt mt2"
    using ReservePair_gauges [OF assms(1) r1] ReservePair_gauges(1) [OF _ r2] by (simp_all add: same_gauges_def)
  moreover have "mt' \<in> {mt, mt1, mt2}"
    using assms(2) Some r1 r2 by (auto simp: reserve_udp_def split: if_splits option.splits)
  ultimately show ?thesis by (auto simp: same_gauges_def)
qed

lemma tryInit_gauges: "same_gauges m (snd (tryInit endpoint env m))"
  by (simp add: tryInit_def Let_def instruments_def same_gauges_def split: option.split)

lemma InitOTLP_gauges: "same_gauges m (snd (InitOTLP endpoint env m))"
  using tryInit_gauges [of m endpoint env]
  by (auto simp: InitOTLP_def same_gauges_def split: prod.split option.split)

lemma main_start_fresh:
  assumes "os_ok (p_os pr)" and "fresh_world (p_world pr)" and "main_start env fl pr = (out, pr')"
  shows "fresh_world (p_world pr')"
proof -
  obtain r lg where prep: "prepare env fl (p_log pr) = (r, lg)" by fastforce
  show ?thesis
  proof (cases r)
    case (Inl e)
    with prep assms(2,3) show ?thesis by (auto simp: main_start_def)
  next
    case (Inr k)
    obtain fl' cl cfg where k: "k = (fl', cl, cfg)" by (metis prod_cases3)
    obtain res os mt where udp: "reserve_udp fl' cfg (p_os pr) (wmetrics (p_world pr)) = (res, os, mt)"
      by (metis prod_cases3)
    note mt = reserve_udp_gauges [OF assms(1) udp]
    have "\<exists>mt1. p_world pr' = with_metrics (\<lambda>_. mt1) (p_world pr)
        \<and> (mt1 = mt \<or> mt1 = snd (InitOTLP (fl_otelEndpoint fl') (collector env) mt))"
      using assms(3) prep Inr k udp
      by (auto simp: main_start_def Let_def split: sum.splits prod.splits option.splits if_splits)
    with assms(2) mt InitOTLP_gauges [of mt "fl_otelEndpoint fl'" "collector env"] show ?thesis
      by (auto simp: fresh_world_def same_gauges_def)
  qed
qed

text \<open>A machine without files and an empty table of sockets.\<close>

definition demo_env :: host_env where
  "demo_env = \<lparr>getenv = (\<lambda>_. []), hostname = Some ''n1'', read_file = (\<lambda>_. None),
     unmarshal_config = (\<lambda>_. None), numCPU = 4, collector = demo_collector True\<rparr>"

definition demo_process :: process where
  "demo_process = \<lparr>p_log = logger_init,
     p_world = init_world,
     p_os = demo_os\<rparr>"

lemma demo_process_ok: "os_ok (p_os demo_process)"
  using demo_alloc_ok by (simp add: demo_process_def alloc_ok_os)

lemma level_info: "level_of_name ''info'' = Some levelInfo"
  by (simp add: level_of_name_def lower_byte_def)

definition demo_flags :: flags where
  "demo_flags = default_flags\<lparr>fl_enableUDP := True, fl_udpPortStart := 5002, fl_udpPortEnd := 5005\<rparr>"

lemma demo_flags [simp]:
  "fl_clusterNodes demo_flags = []" "fl_nodeName demo_flags = []" "fl_otelEndpoint demo_flags = []"
  "fl_logFile demo_flags = []" "fl_logLevel demo_flags = ''info''" "fl_configPath demo_flags = []"
  "fl_enableUDP demo_flags" "udp_range demo_flags = (5002, 5005)" "\<not> fl_autoMaxPublishers demo_flags"
  "\<not> fl_disableOtel demo_flags" "fl_publishPort demo_flags = 9191"
  by (simp_all add: demo_flags_def default_flags_def udp_range_def)

lemma demo_flags_same [simp]:
  "demo_flags\<lparr>fl_clusterNodes := [], fl_nodeName := [], fl_otelEndpoint := []\<rparr> = demo_flags"
  by (simp add: demo_flags_def default_flags_def)

lemma prepare_demo:
  "prepare demo_env demo_flags logger_init
     = (Inr (demo_flags, None, merge_config demo_flags zero_config), logger_init)"
  by (simp add: prepare_def env_fallback_def or_env_def demo_env_def init_cluster_def Let_def
      Configure_def level_info loadConfig_def) (simp add: logger_init_def)

lemma demo_reservations:
  "case ReservePair \<lparr>a_start = 5002, a_end = 5005, reserved = fmempty\<rparr> demo_os metrics_init of
     (r1, a1, os1, mt1) \<Rightarrow> r1 \<noteq> None \<and> fst (ReservePair a1 os1 mt1) \<noteq> None"
  by (simp add: alloc_eval)

lemma demo_udp_starts:
  "\<exists>r pr'. main_start demo_env demo_flags demo_process = (Running r, pr')
     \<and> r_alloc r \<noteq> None"
proof -
  let ?fl = demo_flags
  define cfg where "cfg = merge_config ?fl zero_config"
  have prep: "prepare demo_env ?fl logger_init = (Inr (?fl, None, cfg), logger_init)"
    unfolding cfg_def by (rule prepare_demo)
  obtain p q a1 os1 mt1 a2 os2 mt2 where res:
      "ReservePair \<lparr>a_start = 5002, a_end = 5005, reserved = fmempty\<rparr> demo_os metrics_init = (Some p, a1, os1, mt1)"
      "ReservePair a1 os1 mt1 = (Some q, a2, os2, mt2)"
    using demo_reservations by (auto split: prod.splits) (metis option.exhaust prod.exhaust fst_conv)
  have "EnableUDP cfg" by (simp add: cfg_def merge_config_def Let_def)
  moreover have "NewAllocator 5002 5005 = Some \<lparr>a_start = 5002, a_end = 5005, reserved = fmempty\<rparr>"
    by (simp add: NewAllocator_def go_rem_def go_quot_def)
  ultimately have udp: "reserve_udp ?fl cfg demo_os metrics_init
      = (Inr (cfg\<lparr>PublisherUDPBase := p, SubscriberUDPBase := q\<rparr>, Some (a2, [p, q])), os2, mt2)"
    using res by (simp add: reserve_udp_def)
  have pr: "p_log demo_process = logger_init" "p_os demo_process = demo_os"
      "wmetrics (p_world demo_process) = metrics_init"
    by (simp_all add: demo_process_def init_world_def)
  show ?thesis
    unfolding main_start_def pr prep using udp
    by (simp add: Let_def start_servers_def Start_def)
qed

theorem startup_udp_ports_witness:
  "\<exists>r pr' a p q. main_start demo_env demo_flags demo_process = (Running r, pr')
     \<and> r_alloc r = Some (a, [p, q]) \<and> p \<noteq> q \<and> UDPRTPAddress (r_pub r) = Some (port_address p)
     \<and> (\<exists>c. ListenPacket a (port_address p) = PreBound c \<and> fmlookup (sockets (p_os pr')) c = Some p)"
proof -
  obtain r pr' where start: "main_start demo_env demo_flags demo_process = (Running r, pr')"
    and "r_alloc r \<noteq> None" using demo_udp_starts by blast
  then obtain a bases where alloc: "r_alloc r = Some (a, bases)" by auto
  from startup_udp_ports [OF demo_process_ok start] alloc
  obtain p q where "bases = [p, q]" "p \<noteq> q" "UDPRTPAddress (r_pub r) = Some (port_address p)"
    and "\<exists>c. ListenPacket a (port_address p) = PreBound c \<and> fmlookup (sockets (p_os pr')) c = Some p"
    by auto
  with start alloc show ?thesis by blast
qed

section \<open>Settings\<close>

definition configured :: "host_env \<Rightarrow> string \<Rightarrow> string \<Rightarrow> string" where
  "configured env name flag = (if flag \<noteq> [] then flag else getenv env name)"

lemma or_env_configured: "or_env env name flag = configured env name flag"
  by (simp add: or_env_def configured_def Let_def)

text \<open>This node's name: the flag, the environment, the host, in this order.\<close>

definition own_name :: "host_env \<Rightarrow> flags \<Rightarrow> string" where
  "own_name env fl = (if configured env ''NODE_NAME'' (fl_nodeName fl) \<noteq> []
     then configured env ''NODE_NAME'' (fl_nodeName fl)
     else case hostname env of Some hn \<Rightarrow> hn | None \<Rightarrow> [])"

lemma prepare_Inr:
  assumes "prepare env fl0 lg = (Inr (fl, cl, cfg), lg')"
  obtains fc ns nn oe where "fl = fl0\<lparr>fl_clusterNodes := ns, fl_nodeName := nn, fl_otelEndpoint := oe\<rparr>"
    and "loadConfig env (fl_configPath fl0) = Some fc" and "cfg = merge_config fl0 fc"
    and "if configured env ''CLUSTER_NODES'' (fl_clusterNodes fl0) = [] then cl = None
      else \<exists>c. cl = Some c \<and> NewFromCSV (configured env ''CLUSTER_NODES'' (fl_clusterNodes fl0))
        (own_name env fl0) = Inr c"
proof -
  define fl1 where "fl1 = env_fallback env fl0"
  have fl1: "fl1 = fl0\<lparr>fl_clusterNodes := configured env ''CLUSTER_NODES'' (fl_clusterNodes fl0),
      fl_nodeName := configured env ''NODE_NAME'' (fl_nodeName fl0),
      fl_otelEndpoint := configured env ''OTEL_ENDPOINT'' (fl_otelEndpoint fl0)\<rparr>"
    by (simp add: fl1_def env_fallback_def or_env_configured Let_def)
  obtain fc where prep: "init_cluster env fl1 = Inr (fl, cl)"
      "loadConfig env (fl_configPath fl) = Some fc" "cfg = merge_config fl fc"
    using assms by (auto simp: prepare_def fl1_def Let_def split: sum.splits prod.splits bool.splits option.splits)
  have fl: "fl = fl0\<lparr>fl_clusterNodes := fl_clusterNodes fl, fl_nodeName := fl_nodeName fl,
      fl_otelEndpoint := fl_otelEndpoint fl\<rparr>"
    using prep(1) by (cases fl0) (auto simp: init_cluster_def fl1 Let_def split: if_splits sum.splits option.splits)
  have cl: "if configured env ''CLUSTER_NODES'' (fl_clusterNodes fl0) = [] then cl = None
      else \<exists>c. cl = Some c \<and> NewFromCSV (configured env ''CLUSTER_NODES'' (fl_clusterNodes fl0))
        (own_name env fl0) = Inr c"
    using prep(1)
    by (auto simp: init_cluster_def fl1 own_name_def Let_def split: if_splits sum.splits option.splits)
  show ?thesis
  proof (rule that [OF fl])
    show "loadConfig env (fl_configPath fl0) = Some fc" using prep(2) by (subst (asm) fl) simp
    show "cfg = merge_config fl0 fc" using prep(3) by (subst (asm) fl) (simp add: merge_config_def Let_def)
  qed (rule cl)
qed

definition first_nonzero :: "int \<Rightarrow> int \<Rightarrow> int" where
  "first_nonzero a b = (if a \<noteq> 0 then a else b)"

lemma started_process:
  assumes "os_ok (p_os pr)" and "main_start env fl pr = (Running r, pr')"
  obtains fc cfg where "loadConfig env (fl_configPath fl) = Some fc"
    and "r_manager r = NewManager cfg" and "r_handler r = new_handler (r_server r)"
    and "RTSPAddress (r_pub r) = port_address (PublishPort cfg)"
    and "RTSPAddress (r_sub r) = port_address (SubscribePort cfg)"
    and "PublishPort cfg = first_nonzero (PublishPort fc) (fl_publishPort fl)"
    and "SubscribePort cfg = first_nonzero (SubscribePort fc) (fl_subscribePort fl)"
    and "PublisherQueueSize cfg = first_nonzero (PublisherQueueSize fc) (fl_publisherQueueSize fl)"
    and "MaxSubscribersPerTopic cfg = first_nonzero (MaxSubscribersPerTopic fc) (fl_maxSubscribersPerTopic fl)"
    and "PublisherGracePeriod cfg = first_nonzero (PublisherGracePeriod fc) (fl_publisherGrace fl)"
    and "if fl_autoMaxPublishers fl then auto_size env fl = Some (MaxPublishers cfg) \<and> 1 \<le> MaxPublishers cfg
      else MaxPublishers cfg = first_nonzero (MaxPublishers fc) (fl_maxPublishers fl)"
    and "proxied (r_pub r) = (configured env ''CLUSTER_NODES'' (fl_clusterNodes fl) \<noteq> [] \<and> fl_enableProxy fl)"
    and "proxied (r_sub r) = proxied (r_pub r)"
    and "if configured env ''CLUSTER_NODES'' (fl_clusterNodes fl) = [] then srv_cluster (r_server r) = None
      else \<exists>c. srv_cluster (r_server r) = Some c
        \<and> NewFromCSV (configured env ''CLUSTER_NODES'' (fl_clusterNodes fl)) (own_name env fl) = Inr c"
  using assms
proof (cases rule: main_start_cases)
  case (running fl' cl cfg lg cfg1 cfg2 alloc retry)
  from running(2) obtain fc ns nn oe
    where fl': "fl' = fl\<lparr>fl_clusterNodes := ns, fl_nodeName := nn, fl_otelEndpoint := oe\<rparr>"
    and fc: "loadConfig env (fl_configPath fl) = Some fc" "cfg = merge_config fl fc"
    and cl: "if configured env ''CLUSTER_NODES'' (fl_clusterNodes fl) = [] then cl = None
      else \<exists>c. cl = Some c \<and> NewFromCSV (configured env ''CLUSTER_NODES'' (fl_clusterNodes fl))
        (own_name env fl) = Inr c"
    by (rule prepare_Inr)
  have r: "r = start_servers fl' cfg2 cl alloc retry" using running(1) by simp
  have cfg1: "cfg1 = cfg\<lparr>EnableUDP := EnableUDP cfg1, PublisherUDPBase := PublisherUDPBase cfg1,
      SubscriberUDPBase := SubscriberUDPBase cfg1\<rparr>"
    using running(3) by (cases alloc; cases cfg) (auto simp: udp_result_def)
  obtain e p q where cfg1: "cfg1 = cfg\<lparr>EnableUDP := e, PublisherUDPBase := p, SubscriberUDPBase := q\<rparr>"
    by (rule that) (rule cfg1)
  have auto: "auto_size env fl' = auto_size env fl" by (simp add: auto_size_def fl' Let_def)
  have cfg2: "if fl_autoMaxPublishers fl then \<exists>n. auto_size env fl = Some n \<and> 1 \<le> n \<and> cfg2 = cfg1\<lparr>MaxPublishers := n\<rparr>
      else cfg2 = cfg1"
    using running(4) by (auto simp: final_config_def fl' auto [symmetric]) (auto simp: auto_size_def Let_def split: if_splits)
  have sel: "r_manager r = NewManager cfg2" "r_handler r = new_handler (r_server r)"
    "RTSPAddress (r_pub r) = port_address (PublishPort cfg2)"
    "RTSPAddress (r_sub r) = port_address (SubscribePort cfg2)" "srv_cluster (r_server r) = cl"
    "proxied (r_pub r) = (cl \<noteq> None \<and> fl_enableProxy fl)" "proxied (r_sub r) = proxied (r_pub r)"
    by (simp_all add: r start_servers_def Start_def Let_def rtsp_server_settings_def Config_def
        NewManager_def NewServer_def new_handler_def fl')
  have fields: "PublishPort cfg2 = PublishPort cfg" "SubscribePort cfg2 = SubscribePort cfg"
    "PublisherQueueSize cfg2 = PublisherQueueSize cfg" "MaxSubscribersPerTopic cfg2 = MaxSubscribersPerTopic cfg"
    "PublisherGracePeriod cfg2 = PublisherGracePeriod cfg"
    "\<not> fl_autoMaxPublishers fl \<Longrightarrow> MaxPublishers cfg2 = MaxPublishers cfg"
    "fl_autoMaxPublishers fl \<Longrightarrow> auto_size env fl = Some (MaxPublishers cfg2) \<and> 1 \<le> MaxPublishers cfg2"
    using cfg2 cfg1 by (auto split: if_splits)
  have merged: "PublishPort cfg = first_nonzero (PublishPort fc) (fl_publishPort fl)"
    "SubscribePort cfg = first_nonzero (SubscribePort fc) (fl_subscribePort fl)"
    "PublisherQueueSize cfg = first_nonzero (PublisherQueueSize fc) (fl_publisherQueueSize fl)"
    "MaxSubscribersPerTopic cfg = first_nonzero (MaxSubscribersPerTopic fc) (fl_maxSubscribersPerTopic fl)"
    "PublisherGracePeriod cfg = first_nonzero (PublisherGracePeriod fc) (fl_publisherGrace fl)"
    "MaxPublishers cfg = first_nonzero (MaxPublishers fc) (fl_maxPublishers fl)"
    by (simp_all add: fc(2) merge_config_def Let_def default_if_zero_def first_nonzero_def)
  have cluster: "cl \<noteq> None \<longleftrightarrow> configured env ''CLUSTER_NODES'' (fl_clusterNodes fl) \<noteq> []"
    using cl by (auto split: if_splits)
  show ?thesis
    by (rule that [OF fc(1) sel(1-4)]) (use fields merged sel cl cluster in simp_all)
qed simp_all

text \<open>C37: In a process that has started, a value of the configuration file wins over the
  flag of the same setting, also when the flag was given, and a 0 in the file counts as
  absent; the ports, the manager's limits and queue size and the grace period are those
  values, the automatic limit is never the 0 that would mean unlimited, the subscribers'
  queues have 256 places whatever is configured, and the listeners are wrapped for
  forwarding exactly when a list of nodes is given (by the flag or else by the
  environment) and the proxy is enabled; the cluster is the one read from that list.\<close>

theorem startup_settings:
  assumes "os_ok (p_os pr)" and "main_start env fl pr = (Running r, pr')"
  shows "\<exists>fc. loadConfig env (fl_configPath fl) = Some fc
    \<and> RTSPAddress (r_pub r) = port_address (first_nonzero (PublishPort fc) (fl_publishPort fl))
    \<and> RTSPAddress (r_sub r) = port_address (first_nonzero (SubscribePort fc) (fl_subscribePort fl))
    \<and> (let cfg = Config (r_manager r) in
        PublisherQueueSize cfg = first_nonzero (PublisherQueueSize fc) (fl_publisherQueueSize fl)
        \<and> MaxSubscribersPerTopic cfg = first_nonzero (MaxSubscribersPerTopic fc) (fl_maxSubscribersPerTopic fl)
        \<and> PublisherGracePeriod cfg = first_nonzero (PublisherGracePeriod fc) (fl_publisherGrace fl)
        \<and> (if fl_autoMaxPublishers fl then auto_size env fl = Some (MaxPublishers cfg) \<and> 1 \<le> MaxPublishers cfg
           else MaxPublishers cfg = first_nonzero (MaxPublishers fc) (fl_maxPublishers fl)))
    \<and> subscriberQSz (r_handler r) = 256
    \<and> (let nodes = configured env ''CLUSTER_NODES'' (fl_clusterNodes fl) in
        proxied (r_pub r) = (nodes \<noteq> [] \<and> fl_enableProxy fl) \<and> proxied (r_sub r) = proxied (r_pub r)
        \<and> (if nodes = [] then srv_cluster (r_server r) = None
           else \<exists>c. srv_cluster (r_server r) = Some c \<and> NewFromCSV nodes (own_name env fl) = Inr c))"
  using assms
  by (rule started_process)
    (auto simp: Config_def NewManager_def new_handler_def Let_def intro!: exI)

theorem startup_settings_witness:
  "\<exists>r pr'. main_start demo_env demo_flags demo_process = (Running r, pr')
     \<and> RTSPAddress (r_pub r) = port_address 9191 \<and> subscriberQSz (r_handler r) = 256
     \<and> srv_cluster (r_server r) = None"
proof -
  obtain r pr' where start: "main_start demo_env demo_flags demo_process = (Running r, pr')"
    using demo_udp_starts by blast
  moreover have "loadConfig demo_env [] = Some zero_config" by (simp add: loadConfig_def)
  moreover have "configured demo_env ''CLUSTER_NODES'' [] = []" by (simp add: configured_def demo_env_def)
  ultimately show ?thesis
    using startup_settings [OF demo_process_ok start]
    by (auto simp: first_nonzero_def zero_config_def Let_def)
qed

section \<open>Automatic sizing\<close>

definition total_memory :: "host_env \<Rightarrow> int" where
  "total_memory env = (case readTotalMemoryMB env of Some v \<Rightarrow> v | None \<Rightarrow> 1024 * 16)"

lemma Atoi_range: "Atoi s = Some v \<Longrightarrow> - (2 ^ 63) \<le> v \<and> v < 2 ^ 63"
  by (auto simp: Atoi_def Let_def split: list.splits option.splits if_splits)

lemma go_quot_abs: "\<bar>go_quot a b\<bar> \<le> \<bar>a\<bar>"
proof -
  have "0 \<le> \<bar>a\<bar> div \<bar>b\<bar>" by (cases "b = 0") (simp_all add: pos_imp_zdiv_nonneg_iff)
  then have "\<bar>go_quot a b\<bar> = \<bar>sgn a\<bar> * \<bar>sgn b\<bar> * (\<bar>a\<bar> div \<bar>b\<bar>)"
    by (simp add: go_quot_def abs_mult)
  also have "\<dots> \<le> \<bar>a\<bar>"
    using zdiv_mono2 [of "\<bar>a\<bar>" 1 "\<bar>b\<bar>"] by (cases "a = 0"; cases "b = 0") (auto simp: abs_sgn_eq)
  finally show ?thesis .
qed

lemma find_mem_total_range: "find_mem_total ls = Some v \<Longrightarrow> \<bar>v\<bar> \<le> 2 ^ 53"
proof (induction ls)
  case (Cons line ls)
  show ?case
  proof (cases "HasPrefix line ''MemTotal:''")
    case True
    with Cons.prems obtain kb where kb: "Atoi (Fields line ! 1) = Some kb" and v: "v = go_quot kb 1024"
      by (auto simp: Let_def split: if_splits option.splits)
    have "\<bar>kb\<bar> div 1024 \<le> 2 ^ 53" using Atoi_range [OF kb] zdiv_mono1 [of "\<bar>kb\<bar>" "2 ^ 63" 1024] by (simp add: abs_le_iff)
    then show ?thesis by (auto simp: v go_quot_def abs_mult abs_sgn_eq)
  qed (use Cons in simp)
qed simp

lemma total_memory_range: "\<bar>total_memory env\<bar> \<le> 2 ^ 53"
  using find_mem_total_range
  by (auto simp: total_memory_def readTotalMemoryMB_def split: option.split)

lemma auto_size_facts:
  shows "auto_size env fl = None \<longleftrightarrow> fl_perPublisherMB fl = 0"
    and "auto_size env fl = Some n \<Longrightarrow> 1 \<le> n \<and> n < 2 ^ 63"
    and "auto_size env fl = Some n \<Longrightarrow> 0 < fl_perPublisherMB fl \<Longrightarrow>
      n = 1 \<or> n * fl_perPublisherMB fl \<le> total_memory env"
    and "auto_size env fl = Some n \<Longrightarrow> 0 \<le> numCPU env * fl_publishersPerCPU fl \<Longrightarrow>
      numCPU env * fl_publishersPerCPU fl < 2 ^ 63 \<Longrightarrow> n = 1 \<or> n \<le> numCPU env * fl_publishersPerCPU fl"
proof -
  define mb where "mb = fl_perPublisherMB fl"
  define cpu where "cpu = wrap64 (numCPU env * fl_publishersPerCPU fl)"
  define mem where "mem = wrap64 (go_quot (total_memory env) mb)"
  have quot: "mem = go_quot (total_memory env) mb"
  proof -
    have "\<bar>go_quot (total_memory env) mb\<bar> \<le> 2 ^ 53"
      using go_quot_abs total_memory_range by (rule order_trans)
    then have "go_quot (total_memory env) mb \<le> 2 ^ 53" "- go_quot (total_memory env) mb \<le> 2 ^ 53"
      by (simp_all only: abs_le_iff)
    then show ?thesis unfolding mem_def by (intro wrap64_id) simp_all
  qed
  have eq: "auto_size env fl = (if mb = 0 then None
      else Some (if (if mem < cpu then mem else cpu) < 1 then 1 else if mem < cpu then mem else cpu))"
    by (simp add: auto_size_def Let_def mb_def cpu_def mem_def total_memory_def)
  have fits: "mem < 1 \<or> n * mb \<le> total_memory env" if "0 < mb" "n \<le> mem" for n
  proof (cases "0 \<le> total_memory env")
    case True
    then have "mem * mb \<le> total_memory env"
      using that(1) minus_mod_eq_div_mult [of "total_memory env" mb] pos_mod_sign [OF that(1), of "total_memory env"]
      unfolding quot go_quot_nonneg [OF True that(1)] by linarith
    moreover have "n * mb \<le> mem * mb" using that by simp
    ultimately show ?thesis by simp
  next
    case False
    then have "mem \<le> 0" using that(1) by (simp add: quot go_quot_def pos_imp_zdiv_nonneg_iff)
    then show ?thesis by simp
  qed
  have "wrap64 x = x" if "0 \<le> x" "x < 2 ^ 63" for x using that by (intro wrap64_id) simp_all
  then have cpu: "cpu = numCPU env * fl_publishersPerCPU fl"
    if "0 \<le> numCPU env * fl_publishersPerCPU fl" "numCPU env * fl_publishersPerCPU fl < 2 ^ 63"
    using that by (simp add: cpu_def)
  have range: "mem < 2 ^ 63" "cpu < 2 ^ 63" unfolding mem_def cpu_def using wrap64_range by blast+
  show "auto_size env fl = None \<longleftrightarrow> fl_perPublisherMB fl = 0"
    by (simp add: eq mb_def)
  show "auto_size env fl = Some n \<Longrightarrow> 1 \<le> n \<and> n < 2 ^ 63"
    using range by (auto simp: eq simp del: power_numeral split: if_splits)
  show "n = 1 \<or> n * fl_perPublisherMB fl \<le> total_memory env"
    if "auto_size env fl = Some n" "0 < fl_perPublisherMB fl"
    using that fits [of mem] fits [of cpu] by (auto simp: eq mb_def [symmetric] split: if_splits)
  show "n = 1 \<or> n \<le> numCPU env * fl_publishersPerCPU fl"
    if "auto_size env fl = Some n" "0 \<le> numCPU env * fl_publishersPerCPU fl"
      "numCPU env * fl_publishersPerCPU fl < 2 ^ 63"
    using that(1) cpu [OF that(2,3)] by (auto simp: eq split: if_splits)
qed

text \<open>C38: The automatic limit exists unless the megabytes per publisher are 0 (the division
  panics), and is between 1 and \<open>2 ^ 63\<close>, so it never means unlimited.  Above 1 it fits into
  the memory (16 GB when \<^verbatim>\<open>/proc/meminfo\<close> cannot be read) and, when that product does not
  overflow, into the number of processors times the publishers per processor.\<close>

theorem auto_size_bounds:
  "(auto_size env fl = None \<longleftrightarrow> fl_perPublisherMB fl = 0)
   \<and> (\<forall>n. auto_size env fl = Some n \<longrightarrow> 1 \<le> n \<and> n < 2 ^ 63
      \<and> (0 < fl_perPublisherMB fl \<longrightarrow> n = 1 \<or> n * fl_perPublisherMB fl \<le> total_memory env)
      \<and> (0 \<le> numCPU env * fl_publishersPerCPU fl \<longrightarrow> numCPU env * fl_publishersPerCPU fl < 2 ^ 63 \<longrightarrow>
          n = 1 \<or> n \<le> numCPU env * fl_publishersPerCPU fl))"
  using auto_size_facts by blast

theorem auto_size_bounds_witness:
  "\<exists>n. auto_size demo_env default_flags = Some n \<and> 1 \<le> n \<and> n * 50 \<le> total_memory demo_env \<and> n \<le> 40"
proof -
  have mb: "fl_perPublisherMB default_flags = 50" "fl_publishersPerCPU default_flags = 10"
    by (simp_all add: default_flags_def)
  have cpu: "numCPU demo_env = 4" and mem: "total_memory demo_env = 16384"
    by (simp_all add: demo_env_def total_memory_def readTotalMemoryMB_def)
  obtain n where n: "auto_size demo_env default_flags = Some n"
    using auto_size_bounds [of demo_env default_flags] mb by (cases "auto_size demo_env default_flags") auto
  with auto_size_bounds [of demo_env default_flags] mb cpu mem show ?thesis by fastforce
qed

end
