(* ===== verification/ShutdownTheorems.thy ===== *)
theory ShutdownTheorems
  imports StartupTheorems ServerTheorems
begin

text \<open>
  The end of a process, from whatever state its node has reached: closing the servers
  ends every session, the manager closes every topic, and nothing that was started for a
  session is left running.
\<close>

section \<open>What the topics hold\<close>

definition contexts_of :: "manager \<Rightarrow> context_ptr set" where
  "contexts_of m = {c. \<exists>k t. fmlookup (topics m) k = Some t \<and> c \<in> pub_contexts t \<union> sub_contexts t}"

definition streams_of :: "manager \<Rightarrow> stream_ptr set" where
  "streams_of m = {st. \<exists>k t. fmlookup (topics m) k = Some t \<and> stream t = Some st}"

text \<open>Nothing is let go of without being cancelled or closed.\<close>

definition lets_go :: "manager \<Rightarrow> world \<Rightarrow> manager \<Rightarrow> world \<Rightarrow> bool" where
  "lets_go m w m' w' \<longleftrightarrow>
     cancelled w \<union> contexts_of m \<subseteq> cancelled w' \<union> contexts_of m'
   \<and> streams_closed w \<union> streams_of m \<subseteq> streams_closed w' \<union> streams_of m'"

lemma lets_go_refl [simp]: "lets_go m w m w"
  by (simp add: lets_go_def)

lemma lets_go_trans: "lets_go m w m' w' \<Longrightarrow> lets_go m' w' m'' w'' \<Longrightarrow> lets_go m w m'' w''"
  unfolding lets_go_def by blast

text \<open>It is enough to look at the topic that changes.\<close>

lemma lets_go_set_topic:
  assumes "fmlookup (topics m) k = Some t" and "topics m' = fmupd k t' (topics m)"
    and "cancelled w \<union> pub_contexts t \<union> sub_contexts t
      \<subseteq> cancelled w' \<union> pub_contexts t' \<union> sub_contexts t'"
    and "streams_closed w \<union> set_option (stream t) \<subseteq> streams_closed w' \<union> set_option (stream t')"
  shows "lets_go m w m' w'"
proof -
  have ctx: "c \<in> cancelled w' \<union> contexts_of m'" if "c \<in> contexts_of m" for c
  proof -
    from that obtain j u where u: "fmlookup (topics m) j = Some u" "c \<in> pub_contexts u \<union> sub_contexts u"
      by (auto simp: contexts_of_def)
    have "\<exists>v. fmlookup (topics m') k = Some v \<and> v = t'" "j \<noteq> k \<longrightarrow> fmlookup (topics m') j = Some u"
      using assms(2) u(1) by simp_all
    with u assms(1,3) show ?thesis by (cases "j = k") (auto simp: contexts_of_def)
  qed
  have str: "c \<in> streams_closed w' \<union> streams_of m'" if "c \<in> streams_of m" for c
  proof -
    from that obtain j u where u: "fmlookup (topics m) j = Some u" "stream u = Some c"
      by (auto simp: streams_of_def)
    have "\<exists>v. fmlookup (topics m') k = Some v \<and> v = t'" "j \<noteq> k \<longrightarrow> fmlookup (topics m') j = Some u"
      using assms(2) u(1) by simp_all
    with u assms(1,4) show ?thesis by (cases "j = k") (auto simp: streams_of_def)
  qed
  have t': "fmlookup (topics m') k = Some t'" using assms(2) by simp
  then have "pub_contexts t' \<union> sub_contexts t' \<subseteq> contexts_of m'" by (auto simp: contexts_of_def)
  with assms(3) have "cancelled w \<subseteq> cancelled w' \<union> contexts_of m'" by blast
  moreover have "set_option (stream t') \<subseteq> streams_of m'" using t' by (auto simp: streams_of_def)
  with assms(4) have "streams_closed w \<subseteq> streams_closed w' \<union> streams_of m'" by blast
  ultimately show ?thesis using ctx str by (auto simp: lets_go_def)
qed

lemma UnregisterPublisher_lets_go:
  "lets_go m w (fst (UnregisterPublisher k m w)) (snd (UnregisterPublisher k m w))"
proof (cases "fmlookup (topics m) k")
  case None
  then show ?thesis by (simp add: UnregisterPublisher_def)
next
  case (Some t)
  show ?thesis
  proof (rule lets_go_set_topic [OF Some UnregisterPublisher_Some(1) [OF Some]])
    show "cancelled w \<union> pub_contexts t \<union> sub_contexts t
        \<subseteq> cancelled (snd (UnregisterPublisher k m w)) \<union> pub_contexts (fst (RemovePublisher t w))
          \<union> sub_contexts (fst (RemovePublisher t w))"
      and "streams_closed w \<union> set_option (stream t)
        \<subseteq> streams_closed (snd (UnregisterPublisher k m w)) \<union> set_option (stream (fst (RemovePublisher t w)))"
      unfolding UnregisterPublisher_Some(4) [OF Some]
      by (auto simp: RemovePublisher_def close_stream_def Let_def pub_contexts_def sub_contexts_def
          split: option.split)
  qed
qed

lemma UnregisterSubscriber_lets_go:
  "lets_go m w (fst (UnregisterSubscriber k i m w)) (snd (UnregisterSubscriber k i m w))"
proof (cases "fmlookup (topics m) k")
  case None
  then show ?thesis by (simp add: UnregisterSubscriber_def)
next
  case (Some t)
  show ?thesis
    unfolding UnregisterSubscriber_eq Some option.case fst_conv snd_conv
    by (rule lets_go_set_topic [OF Some set_topic_simps(1)])
       (auto simp: RemoveSubscriber_def pub_contexts_def sub_contexts_def split: option.splits if_splits)
qed

lemma OnSessionClose_lets_go:
  assumes "OnSessionClose sess h m w = (h', m', w')"
  shows "lets_go m w m' w'"
  using assms UnregisterPublisher_lets_go [of m w "session_topic h sess"]
    UnregisterSubscriber_lets_go [of m w "session_topic h sess" "show_ptr sess"]
  by (auto simp: OnSessionClose_def Let_def split: if_splits prod.splits)

section \<open>Closing the servers\<close>

lemma server_Close_node:
  assumes "node_reach sum64 cfg srv n"
    and "server_Close ss (n_handler n) (mgr (n_sys n)) (wld (n_sys n)) = (h', m', w')"
  shows "node_reach sum64 cfg srv (with_state h' m' w' n)
    \<and> (\<forall>s. fmlookup (sessTopic h') s = (if s \<in> set ss then None else fmlookup (sessTopic (n_handler n)) s))
    \<and> lets_go (mgr (n_sys n)) (wld (n_sys n)) m' w'
    \<and> fmdom' (topics m') = fmdom' (topics (mgr (n_sys n)))"
  using assms
proof (induction ss arbitrary: n)
  case Nil
  then have "h' = n_handler n" "m' = mgr (n_sys n)" "w' = wld (n_sys n)" by auto
  with Nil(1) show ?case by simp
next
  case (Cons sess ss)
  obtain h1 m1 w1 where call: "OnSessionClose sess (n_handler n) (mgr (n_sys n)) (wld (n_sys n)) = (h1, m1, w1)"
    by (metis prod_cases3)
  let ?n = "with_state h1 m1 w1 n"
  have step: "node_step sum64 n (Session_closes sess) ?n" using call by (rule node_step.session_closes)
  then have reach: "node_reach sum64 cfg srv ?n"
    using Cons.prems(1) by (rule node_reach.node_next [rotated 2]) (simp add: library_order_def)
  have sel: "n_handler ?n = h1" "mgr (n_sys ?n) = m1" "wld (n_sys ?n) = w1"
    by (simp_all add: with_state_def)
  have rest: "server_Close ss (n_handler ?n) (mgr (n_sys ?n)) (wld (n_sys ?n)) = (h', m', w')"
    using Cons.prems(2) call sel by simp
  have "with_state h' m' w' ?n = with_state h' m' w' n" by (simp add: with_state_def)
  moreover have "sessTopic h1 = fmdrop sess (sessTopic (n_handler n))"
    using call by (auto simp: OnSessionClose_def Let_def split: if_splits prod.splits)
  moreover have "fmdom' (topics m1) = fmdom' (topics (mgr (n_sys n)))"
    using call by (auto simp: OnSessionClose_def UnregisterPublisher_def UnregisterSubscriber_def
        Let_def split_beta fmlookup_dom'_iff split: if_splits option.splits)
  ultimately show ?case
    using Cons.IH [OF reach rest] OnSessionClose_lets_go [OF call] sel
    by (auto intro: lets_go_trans)
qed

section \<open>Shutting the manager down\<close>

lemma Shutdown_other:
  "Shutdown ord m w = Some (m', w') \<Longrightarrow> n \<notin> fst ` set ord \<Longrightarrow>
    fmlookup (topics m') n = fmlookup (topics m) n"
  by (induction ord m w rule: Shutdown.induct) (auto split: option.splits)

lemma Shutdown_closes:
  "Shutdown ord m w = Some (m', w') \<Longrightarrow> distinct (map fst ord) \<Longrightarrow> n \<in> fst ` set ord \<Longrightarrow>
    fmlookup (topics m') n = Some t \<Longrightarrow> closed t"
proof (induction ord m w rule: Shutdown.induct)
  case (2 k ids rest m w)
  show ?case
  proof (cases "fmlookup (topics m) k")
    case None
    with 2 Shutdown_other [of rest m w m' w' k] show ?thesis by auto
  next
    case (Some u)
    with 2(3) obtain u' w1 where close: "Close ids u w = Some (u', w1)"
      and rest: "Shutdown rest (set_topic k u' m) w1 = Some (m', w')"
      by (auto split: option.splits)
    have "closed u'" using close by (auto simp: Close_def Let_def split: if_splits option.splits)
    with Shutdown_other [OF rest, of k] 2(2) [OF Some close refl rest] 2(4-6) show ?thesis
      by (cases "n = k") auto
  qed
qed simp

text \<open>A manager that nobody uses.\<close>

definition quiet :: "manager \<Rightarrow> world \<Rightarrow> bool" where
  "quiet m w \<longleftrightarrow> mgr_ok m \<and> publisherCount m = 0
     \<and> promActivePublishers (wmetrics w) = 0 \<and> promActiveSubscribers (wmetrics w) = 0
     \<and> (\<forall>k t. fmlookup (topics m) k = Some t \<longrightarrow> publisher t = None \<and> subscribers t = fmempty \<and> stream t = None)"

lemma quiet_holds_nothing: "quiet m w \<Longrightarrow> contexts_of m = {} \<and> streams_of m = {}"
  by (fastforce simp: quiet_def contexts_of_def streams_of_def pub_contexts_def sub_contexts_def)

lemma quiet_closed_topic:
  assumes "quiet m w" and "fmlookup (topics m) k = Some t"
  shows "quiet (set_topic k (closed_topic t) m) (closed_world t w)"
proof -
  have "subscribers t = fmempty" "publisher t = None" using assms by (simp_all add: quiet_def)
  then have "closed_world t w = w"
    by (simp add: closed_world_def pub_contexts_def sub_contexts_def)
  moreover have "mgr_ok (set_topic k (closed_topic t) m)"
    using assms by (intro mgr_ok_set_topic topic_fits_closed_topic topic_fits_lookup) (simp_all add: quiet_def)
  ultimately show ?thesis
    using assms by (auto simp: quiet_def closed_topic_def)
qed

lemma Shutdown_quiet:
  assumes "quiet m w" and "shutdown_order ord m"
  shows "\<exists>m' w'. Shutdown ord m w = Some (m', w') \<and> quiet m' w' \<and> fmdom' (topics m') = fmdom' (topics m)
    \<and> cancelled w \<subseteq> cancelled w' \<and> streams_closed w \<subseteq> streams_closed w'
    \<and> (\<forall>k t. fmlookup (topics m') k = Some t \<longrightarrow> closed t)"
proof -
  let ?I = "\<lambda>m' w'. quiet m' w' \<and> fmdom' (topics m') = fmdom' (topics m)
    \<and> cancelled w \<subseteq> cancelled w' \<and> streams_closed w \<subseteq> streams_closed w'"
  have "\<exists>m' w'. Shutdown ord m w = Some (m', w') \<and> ?I m' w'"
  proof (rule Shutdown_invariant [where I = ?I])
    show "?I (set_topic k (closed_topic t) m') (closed_world t w')"
      if "?I m' w'" "fmlookup (topics m') k = Some t" for m' w' k t
      using that quiet_closed_topic [of m' w' k t] by (auto simp: closed_world_def fmlookup_dom'_iff)
  qed (use assms in \<open>auto simp: shutdown_order_def enumerates_def quiet_def mgr_okD(2)\<close>)
  then obtain m' w' where down: "Shutdown ord m w = Some (m', w')" and inv: "?I m' w'" by blast
  have "closed t" if "fmlookup (topics m') k = Some t" for k t
  proof (rule Shutdown_closes [OF down])
    show "distinct (map fst ord)" using assms(2) by (simp add: shutdown_order_def enumerates_def)
    have "k \<in> fmdom' (topics m)" using that inv by (metis fmdom'I)
    then show "k \<in> fst ` set ord" using assms(2) by (simp add: shutdown_order_def enumerates_def)
  qed fact
  with down inv show ?thesis by blast
qed

lemma no_sessions_quiet:
  assumes "node_reach sum64 cfg srv n" and "0 \<le> PublisherQueueSize cfg"
    and none: "sessTopic (n_handler n) = fmempty"
  shows "quiet (mgr (n_sys n)) (wld (n_sys n))"
proof -
  let ?m = "mgr (n_sys n)"
  have ok: "sessions_ok (n_handler n) (registry_of ?m)"
    and reach: "reach both_disciplines cfg (n_sys n)"
    using node_reach_ok [OF assms(1,2)] by (simp_all add: node_ok_def)
  note facts = both_reach [OF reach]
  have nobody: "\<not> publishes (n_handler n) s k" "\<not> subscribes (n_handler n) s k" for s k
    using none by (simp_all add: publishes_def subscribes_def)
  have topics: "publisher t = None \<and> subscribers t = fmempty"
    if t: "fmlookup (topics ?m) k = Some t" for k t
  proof -
    have entry: "registry_of ?m k = Some (topic_entry t)" using t by (simp add: registry_of_def)
    have "fst (topic_entry t) = None" "snd (topic_entry t) = {}"
      using sessions_okD(3,4) [OF ok, of k] entry nobody by (cases "topic_entry t"; force)+
    then show ?thesis by (simp add: topic_entry_def fmsize_def flip: fmsize_0_iff)
  qed
  then have "total_subscribers ?m = 0"
    by (auto simp: total_subscribers_def fmsum_def fmlookup_dom'_iff intro!: sum.neutral)
  then have "promActiveSubscribers (wmetrics (wld (n_sys n))) = 0"
    using sub_gauge.reach_invariant [OF facts(2)] by (simp add: gauge_exact_def)
  moreover have "publisherCount ?m = 0"
    using node_publisher_count(1) [OF assms(1,2)] nobody by simp
  moreover from this have "promActivePublishers (wmetrics (wld (n_sys n))) = 0"
    using pub_count.reach_invariant [OF facts(1)] facts(4)
    by (simp add: publishers_exact_def count_exact_def)
  ultimately show ?thesis
    using topics node_reach_streams [OF assms(1,2)] facts(3)
    by (auto simp: quiet_def streams_ok_def)
qed

section \<open>The end of the process\<close>


text \<open>The process of the demonstrations, with one session that publishes.\<close>

lemma publishing_session:
  assumes "srv_cluster srv = None" and "0 \<le> PublisherQueueSize cfg"
  obtains n t h m w where "run_requests byte_sum [Announce 1 ''/cam'' 7] (init_node cfg srv) = Some n"
    and "fmlookup (topics (mgr (n_sys n))) ''cam'' = Some t" and "stream t = Some 7" and "pub_contexts t = {0}"
    and "sessTopic (n_handler n) = fmupd 1 ''cam'' fmempty"
    and "server_Close [1] (n_handler n) (mgr (n_sys n)) (wld (n_sys n)) = (h, m, w)"
    and "shutdown_order [(''cam'', [])] m"
proof -
  have "(0 < MaxPublishers cfg \<and> MaxPublishers cfg \<le> 0) = False" "(PublisherQueueSize cfg < 0) = False"
    using assms(2) by auto
  with assms(1) that show ?thesis by (simp add: server_eval run_eval pub_contexts_def)
qed


end
