(* ===== verification/Admin.thy ===== *)
theory Admin
  imports Manager ClusterTheorems
begin

text \<open>
  \<^verbatim>\<open>pkg/admin/admin.go\<close>: the handlers of the admin server.  A request is its method and
  its query; a response is an HTTP error with its message or the value that is encoded
  as JSON.

  The handlers take an \<open>interface{}\<close> and ask it for the methods they need: it may be
  nil, hold a value without those methods, or hold the cluster.
\<close>

datatype http_status =
    StatusHttpOK
  | StatusHttpNotFound
  | StatusHttpBadRequest
  | StatusHttpMethodNotAllowed
  | StatusHttpInternalServerError

datatype 'a http_response = HttpError http_status string | HttpJson 'a

record http_request =
  Method :: string
  Query :: "string \<Rightarrow> string"

datatype cluster_value = NilCluster | OtherValue | TheCluster cluster

section \<open>The handlers\<close>

text \<open>\<open>names\<close> is the order in which the range over the topics visits them.\<close>

definition StatusHandler ::
    "string list \<Rightarrow> manager \<Rightarrow> http_request \<Rightarrow> status_json http_response" where
  "StatusHandler names m r = HttpJson (Status names m)"

record cluster_info =
  ci_members :: "string list"
  ci_self :: string
  ci_draining :: "(string, bool) fmap"

fun draining_flags :: "cluster \<Rightarrow> string list \<Rightarrow> (string, bool) fmap \<Rightarrow> (string, bool) fmap" where
  "draining_flags c [] drains = drains"
| "draining_flags c (m # ms) drains = draining_flags c ms (fmupd m (IsDraining c m) drains)"

definition ClusterHandler :: "cluster_value \<Rightarrow> http_request \<Rightarrow> cluster_info http_response" where
  "ClusterHandler cl r = (case cl of
       NilCluster \<Rightarrow> HttpError StatusHttpNotFound ''no cluster configured''
     | OtherValue \<Rightarrow> HttpError StatusHttpInternalServerError ''cluster not available''
     | TheCluster c \<Rightarrow> HttpJson \<lparr>ci_members = Members c, ci_self = Self c,
         ci_draining = draining_flags c (Members c) fmempty\<rparr>)"

fun known_node :: "string \<Rightarrow> string list \<Rightarrow> bool" where
  "known_node node [] = False"
| "known_node node (m # ms) = (if m = node then True else known_node node ms)"

definition DrainHandler ::
    "cluster_value \<Rightarrow> http_request \<Rightarrow> (string \<times> bool) http_response \<times> cluster_value" where
  "DrainHandler cl r = (case cl of
       NilCluster \<Rightarrow> (HttpError StatusHttpNotFound ''no cluster configured'', cl)
     | OtherValue \<Rightarrow>
         (HttpError StatusHttpInternalServerError ''cluster does not support drain control'', cl)
     | TheCluster c \<Rightarrow>
         if Method r \<noteq> ''POST'' then (HttpError StatusHttpMethodNotAllowed ''method not allowed'', cl)
         else let node = Query r ''node'' in
           if node = [] then (HttpError StatusHttpBadRequest ''missing node parameter'', cl)
           else let drainStr = Query r ''drain'' in
             if drainStr = [] then (HttpError StatusHttpBadRequest ''missing drain parameter (true|false)'', cl)
             else let drain = (if drainStr = ''true'' \<or> drainStr = ''1'' then True else False) in
               if \<not> known_node node (Members c) then (HttpError StatusHttpBadRequest ''unknown node'', cl)
               else (HttpJson (node, drain), TheCluster (SetDraining node drain c)))"

section \<open>Facts\<close>

lemma known_node_iff [simp]: "known_node node ms \<longleftrightarrow> node \<in> set ms"
  by (induction ms) auto

lemma draining_flags_lookup:
  "fmlookup (draining_flags c ms drains) k
     = (if k \<in> set ms then Some (IsDraining c k) else fmlookup drains k)"
  by (induction c ms drains rule: draining_flags.induct) auto

lemma ClusterHandler_draining:
  "ClusterHandler (TheCluster c) r = HttpJson info \<Longrightarrow>
    fmlookup (ci_draining info) k = (if k \<in> set (nodes c) then Some (IsDraining c k) else None)"
  by (auto simp: ClusterHandler_def draining_flags_lookup Members_def)

text \<open>A drain request that is accepted, and the flag it asks for.\<close>

definition drains :: "cluster \<Rightarrow> http_request \<Rightarrow> string \<Rightarrow> bool \<Rightarrow> bool" where
  "drains c r node flag \<longleftrightarrow> Method r = ''POST'' \<and> Query r ''node'' = node \<and> node \<in> set (nodes c)
     \<and> Query r ''drain'' \<noteq> [] \<and> flag = (Query r ''drain'' = ''true'' \<or> Query r ''drain'' = ''1'')"

lemma DrainHandler_cases:
  assumes "cluster_ok c"
  obtains (accepted) node flag where "drains c r node flag"
      "DrainHandler (TheCluster c) r = (HttpJson (node, flag), TheCluster (SetDraining node flag c))"
    | (rejected) status msg where "\<nexists>node flag. drains c r node flag"
      "DrainHandler (TheCluster c) r = (HttpError status msg, TheCluster c)"
proof (cases "Method r = ''POST'' \<and> Query r ''node'' \<in> set (nodes c) \<and> Query r ''drain'' \<noteq> []")
  case True
  then have "Query r ''node'' \<noteq> []" using assms by (auto simp: cluster_ok_def)
  with True show ?thesis
    by (intro accepted [of "Query r ''node''" "Query r ''drain'' = ''true'' \<or> Query r ''drain'' = ''1''"])
      (simp_all add: drains_def DrainHandler_def Let_def Members_def)
next
  case False
  then have "\<exists>status msg. DrainHandler (TheCluster c) r = (HttpError status msg, TheCluster c)"
    by (auto simp: DrainHandler_def Let_def Members_def)
  moreover have "\<nexists>node flag. drains c r node flag" using False by (auto simp: drains_def)
  ultimately show ?thesis using rejected by blast
qed

lemma drained_owns_nothing:
  assumes "cluster_ok c" and "IsDraining c n" and "n \<noteq> []"
  shows "Owner sum64 c topic \<noteq> n"
proof -
  have "[] \<notin> set (nodes c)" using assms(1) by (simp add: cluster_ok_def)
  then show ?thesis using assms(2,3) by (cases rule: Owner_cases [of c sum64 topic]) auto
qed

section \<open>Draining a node\<close>

text \<open>C39: A drain request takes effect exactly when it is a POST for a member with a drain
  parameter: the cluster page then shows the requested flag for that node and the old one
  for every other; a node that drains owns no topic any more, while every topic of another
  node keeps its owner.  Any other request gets an error and changes nothing.\<close>

theorem drain_request_effect:
  assumes "cluster_ok c" and "DrainHandler (TheCluster c) r = (resp, cl')"
    and "ClusterHandler cl' r' = HttpJson info"
  shows "if \<exists>node flag. drains c r node flag
    then \<exists>node flag c'. drains c r node flag \<and> cl' = TheCluster c' \<and> cluster_ok c'
      \<and> resp = HttpJson (node, flag)
      \<and> (\<forall>k \<in> set (nodes c). fmlookup (ci_draining info) k = Some (if k = node then flag else IsDraining c k))
      \<and> (flag \<longrightarrow> (\<forall>topic. Owner sum64 c' topic \<noteq> node
          \<and> (Owner sum64 c topic \<noteq> node \<longrightarrow> Owner sum64 c' topic = Owner sum64 c topic)))
    else (\<exists>status msg. resp = HttpError status msg) \<and> cl' = TheCluster c"
  using assms(1)
proof (cases rule: DrainHandler_cases [of c r])
  case (accepted node flag)
  define c' where "c' = SetDraining node flag c"
  have cl': "cl' = TheCluster c'" "resp = HttpJson (node, flag)"
    using accepted(2) assms(2) by (simp_all add: c'_def)
  have node: "node \<in> set (nodes c)" "node \<noteq> []" "node \<in> nodeSet c"
    using accepted(1) assms(1) by (auto simp: drains_def cluster_ok_def)
  have ok: "cluster_ok c'" using assms(1) by (simp add: c'_def cluster_ok_SetDraining)
  have "fmlookup (ci_draining info) k = Some (if k = node then flag else IsDraining c k)"
    if "k \<in> set (nodes c)" for k
    using ClusterHandler_draining [OF assms(3) [unfolded cl'], of k] that node(3)
    by (simp add: c'_def IsDraining_SetDraining)
  moreover have "Owner sum64 c' topic \<noteq> node
      \<and> (Owner sum64 c topic \<noteq> node \<longrightarrow> Owner sum64 c' topic = Owner sum64 c topic)" if flag for topic
    using drained_owns_nothing [OF ok _ node(2), of sum64 topic] drained_owner_stays [OF assms(1), of sum64 topic node]
      that node(3) by (simp add: c'_def IsDraining_SetDraining)
  ultimately show ?thesis using accepted(1) cl' ok by auto
next
  case (rejected status msg)
  then show ?thesis using assms(2) by auto
qed

theorem drain_request_effect_witness:
  "\<exists>c'. DrainHandler (TheCluster demo_cluster)
       \<lparr>Method = ''POST'', Query = (\<lambda>k. if k = ''node'' then ''n3'' else ''true'')\<rparr>
     = (HttpJson (''n3'', True), TheCluster c')
     \<and> Owner byte_sum demo_cluster ''cam'' = ''n3'' \<and> Owner byte_sum c' ''cam'' \<noteq> ''n3''"
proof -
  let ?r = "\<lparr>Method = ''POST'', Query = (\<lambda>k. if k = ''node'' then ''n3'' else ''true'')\<rparr> :: http_request"
  define c' where "c' = SetDraining ''n3'' True demo_cluster"
  have handled: "DrainHandler (TheCluster demo_cluster) ?r = (HttpJson (''n3'', True), TheCluster c')"
    by (simp add: DrainHandler_def Let_def Members_def demo_cluster_def c'_def)
  have d: "drains demo_cluster ?r ''n3'' True" by (simp add: drains_def demo_cluster_def)
  obtain info where "ClusterHandler (TheCluster c') ?r = HttpJson info"
    by (simp add: ClusterHandler_def)
  note effect = drain_request_effect [OF demo_cluster_ok handled this, of byte_sum]
  have "\<exists>node flag. drains demo_cluster ?r node flag" using d by blast
  from effect [unfolded if_P [OF this]] have "Owner byte_sum c' ''cam'' \<noteq> ''n3''" by auto
  with handled demo_owner show ?thesis by blast
qed

end
