(* ===== verification/Loadtest.thy ===== *)
theory Loadtest
  imports GoStrings "HOL-Library.Word"
begin

text \<open>
  \<^verbatim>\<open>docs/loadtest/loadtest.go\<close>: the load generator.  Each publisher connects with
  retries and then writes numbered RTP packets; with ffmpeg, each stream is a process
  that is restarted once with other arguments when the first one is rejected.  What the
  RTSP client and the processes do is the input of the functions.
\<close>

section \<open>Connecting\<close>

text \<open>
  The outcome of one call of \<open>StartPublishing\<close>; after a failure, whether the context is
  cancelled before the delay is over.
\<close>

datatype start_outcome = Started | Failed bool

datatype connect_result = Connected | GaveUp | Cancelled | StillTrying

text \<open>The loop: the result after the given outcomes, and the delays waited in full.\<close>

fun connect :: "int \<Rightarrow> int \<Rightarrow> int \<Rightarrow> start_outcome list \<Rightarrow> connect_result \<times> int list" where
  "connect retries attempt retryDelay [] = (StillTrying, [])"
| "connect retries attempt retryDelay (Started # os) = (Connected, [])"
| "connect retries attempt retryDelay (Failed cancelled # os) =
     (let attempt' = wrap64 (attempt + 1) in
      if 0 < retries \<and> retries < attempt' then (GaveUp, [])
      else if cancelled then (Cancelled, [])
      else case connect retries attempt' (wrap64 (retryDelay * 2)) os of
        (r, waits) \<Rightarrow> (r, retryDelay # waits))"

section \<open>Packets\<close>

record rtp_packet =
  Version :: "8 word"
  PayloadType :: "8 word"
  SequenceNumber :: "16 word"
  Timestamp :: "32 word"
  SSRC :: "32 word"
  Payload :: "8 word list"

datatype publish_event = CtxDone | Tick bool  \<comment> \<open>whether the write succeeds\<close>

definition publisher_packet :: "int \<Rightarrow> 16 word \<Rightarrow> 32 word \<Rightarrow> rtp_packet" where
  "publisher_packet ident sq ts = \<lparr>Version = 2, PayloadType = 96, SequenceNumber = sq, Timestamp = ts,
     SSRC = word_of_int ident, Payload = [0, 0, 1, 9]\<rparr>"

text \<open>The packets given to the client, in order.\<close>

fun publish_loop :: "int \<Rightarrow> 16 word \<Rightarrow> 32 word \<Rightarrow> publish_event list \<Rightarrow> rtp_packet list" where
  "publish_loop ident sq ts [] = []"
| "publish_loop ident sq ts (CtxDone # es) = []"
| "publish_loop ident sq ts (Tick ok # es) = publisher_packet ident sq ts #
     (if ok then publish_loop ident (sq + 1) (ts + 3000) es else [])"

definition publisher_url :: "string \<Rightarrow> int \<Rightarrow> string \<Rightarrow> string" where
  "publisher_url host port topic = ''rtsp://'' @ host @ CHR '':'' # show_int port @ CHR ''/'' # topic"

text \<open>The URL it announced, if it connected, and the packets it wrote.\<close>

definition runPublisher ::
    "string \<Rightarrow> int \<Rightarrow> string \<Rightarrow> int \<Rightarrow> int \<Rightarrow> int \<Rightarrow> start_outcome list \<Rightarrow> publish_event list
      \<Rightarrow> string option \<times> rtp_packet list" where
  "runPublisher host port topic ident retries retryDelay starts events =
     (if fst (connect retries 0 retryDelay starts) = Connected
      then (Some (publisher_url host port topic), publish_loop ident 0 0 events)
      else (None, []))"

section \<open>ffmpeg\<close>

fun Contains :: "string \<Rightarrow> string \<Rightarrow> bool" where
  "Contains [] p = (p = [])"
| "Contains (c # s) p = (HasPrefix (c # s) p \<or> Contains s p)"

definition copy_args :: "string \<Rightarrow> string \<Rightarrow> string list" where
  "copy_args infile url = [''-re'', ''-stream_loop'', ''-1'', ''-i'', infile, ''-c'', ''copy'', ''-f'', ''rtsp'', url]"

definition reencode_args :: "string \<Rightarrow> string \<Rightarrow> string list" where
  "reencode_args infile url = [''-re'', ''-stream_loop'', ''-1'', ''-i'', infile, ''-c:v'', ''libx264'',
     ''-preset'', ''veryfast'', ''-c:a'', ''aac'', ''-f'', ''rtsp'', url]"

text \<open>What the first bytes of the error output say; at most 4096 of them are read.\<close>

definition rejected :: "string \<Rightarrow> bool" where
  "rejected out = (let s = take 4096 out in
     Contains s ''400 Bad Request'' \<or> Contains s ''Error opening input'' \<or> Contains s ''Could not write header'')"

text \<open>
  \<open>seen\<close> is the error output when it arrives before the wait is over.  The result is the
  argument list of the process that is left running.
\<close>

definition spawnFFmpegWithFallback ::
    "bool \<Rightarrow> bool \<Rightarrow> string option \<Rightarrow> bool \<Rightarrow> string \<Rightarrow> string \<Rightarrow> string list option" where
  "spawnFFmpegWithFallback pipe_ok start_ok seen restart_ok infile url =
     (if \<not> pipe_ok then None
      else if \<not> start_ok then None
      else let failed = (case seen of None \<Rightarrow> False | Some out \<Rightarrow> rejected out) in
        if \<not> failed then Some (copy_args infile url)
        else if \<not> restart_ok then None
        else Some (reencode_args infile url))"

text \<open>
  The streams that \<open>main\<close> starts: a process with its arguments, or a native publisher
  with its topic and number.  \<open>spawn\<close> is \<open>spawnFFmpegWithFallback\<close> for one URL.
\<close>

datatype stream_source = Process "string list" | Native string int

definition stream_topic :: "string \<Rightarrow> int \<Rightarrow> string" where
  "stream_topic prefix i = prefix @ show_int i"

definition start_stream ::
    "bool \<Rightarrow> bool \<Rightarrow> (string \<Rightarrow> string list option) \<Rightarrow> string \<Rightarrow> int \<Rightarrow> string \<Rightarrow> int \<Rightarrow> stream_source" where
  "start_stream useFFmpeg infileExists spawn host pubPort prefix i =
     (let topic = stream_topic prefix i;
          url = publisher_url host pubPort topic
      in if useFFmpeg \<and> infileExists
         then (case spawn url of Some args \<Rightarrow> Process args | None \<Rightarrow> Native topic i)
         else Native topic i)"

definition start_streams ::
    "bool \<Rightarrow> bool \<Rightarrow> (string \<Rightarrow> string list option) \<Rightarrow> string \<Rightarrow> int \<Rightarrow> string \<Rightarrow> int \<Rightarrow> stream_source list" where
  "start_streams useFFmpeg infileExists spawn host pubPort prefix streams =
     map (start_stream useFFmpeg infileExists spawn host pubPort prefix) [1..streams]"

section \<open>The program\<close>

text \<open>The flags, with the values they have when they are not given.\<close>

record lt_flags =
  lt_host :: string
  lt_pubPort :: int
  lt_streams :: int
  lt_prefix :: string
  lt_interval :: int
  lt_retries :: int
  lt_retryDelay :: int
  lt_useFFmpeg :: bool
  lt_infile :: string
  lt_ffmpegBin :: string
  lt_staggerMs :: int

definition default_lt_flags :: lt_flags where
  "default_lt_flags = \<lparr>lt_host = ''127.0.0.1'', lt_pubPort = 9191, lt_streams = 1, lt_prefix = ''topic'',
     lt_interval = 50000000, lt_retries = 5, lt_retryDelay = 1000000000, lt_useFFmpeg = True,
     lt_infile = ''../test_footage.mp4'', lt_ffmpegBin = ''ffmpeg'', lt_staggerMs = 200\<rparr>"

text \<open>The sleep after the start of a stream, in nanoseconds.\<close>

definition start_pause :: "lt_flags \<Rightarrow> stream_source \<Rightarrow> int" where
  "start_pause fl src = (case src of
       Process _ \<Rightarrow> wrap64 (lt_staggerMs fl * 1000000)
     | Native _ _ \<Rightarrow> 20000000)"

text \<open>
  The whole run: what is started, the pauses between, the processes that are killed after
  the signal, and whether the program waits for its publishers before it ends.  \<open>None\<close> is
  the panic of the \<open>make\<close> with a negative capacity.
\<close>

definition loadtest_main ::
    "lt_flags \<Rightarrow> (string \<Rightarrow> bool) \<Rightarrow> (string \<Rightarrow> string list option)
      \<Rightarrow> (stream_source list \<times> int list \<times> string list list \<times> bool) option" where
  "loadtest_main fl exists_file spawn =
     (if lt_useFFmpeg fl \<and> lt_streams fl < 0 then None
      else let srcs = start_streams (lt_useFFmpeg fl) (exists_file (lt_infile fl)) spawn
             (lt_host fl) (lt_pubPort fl) (lt_prefix fl) (lt_streams fl)
        in Some (srcs, map (start_pause fl) srcs,
             if lt_useFFmpeg fl
             then List.map_filter (\<lambda>src. case src of Process args \<Rightarrow> Some args | Native _ _ \<Rightarrow> None) srcs
             else [],
             \<not> lt_useFFmpeg fl))"

section \<open>Facts\<close>

text \<open>Without ffmpeg, or when every process is rejected, every stream is a native publisher of
  its own topic.\<close>

lemma start_streams_native:
  assumes "\<not> useFFmpeg \<or> \<not> infileExists \<or> (\<forall>url. spawn url = None)"
  shows "start_streams useFFmpeg infileExists spawn host port prefix n
    = map (\<lambda>i. Native (stream_topic prefix i) i) [1..n]"
  using assms by (auto simp: start_streams_def start_stream_def Let_def)

text \<open>Packet \<open>n\<close> has sequence number \<open>n\<close> modulo \<open>2 ^ 16\<close> and timestamp \<open>3000 n\<close> modulo \<open>2 ^ 32\<close>.\<close>

lemma publish_loop_nth:
  "n < length (publish_loop ident sq ts es) \<Longrightarrow>
    publish_loop ident sq ts es ! n = publisher_packet ident (sq + of_nat n) (ts + 3000 * of_nat n)"
proof (induction ident sq ts es arbitrary: n rule: publish_loop.induct)
  case (3 ident sq ts ok es)
  show ?case
  proof (cases n)
    case (Suc k)
    with 3 show ?thesis by (cases ok) (auto simp: algebra_simps)
  qed simp
qed simp_all

lemma sequence_number_wraps:
  assumes "n < length (publish_loop ident 0 0 es)"
  shows "unat (SequenceNumber (publish_loop ident 0 0 es ! n)) = n mod 2 ^ 16"
    and "unat (Timestamp (publish_loop ident 0 0 es ! n)) = 3000 * n mod 2 ^ 32"
proof -
  have "SequenceNumber (publish_loop ident 0 0 es ! n) = word_of_nat n"
    "Timestamp (publish_loop ident 0 0 es ! n) = word_of_nat (3000 * n)"
    by (simp_all add: publish_loop_nth [OF assms] publisher_packet_def)
  then show "unat (SequenceNumber (publish_loop ident 0 0 es ! n)) = n mod 2 ^ 16"
    and "unat (Timestamp (publish_loop ident 0 0 es ! n)) = 3000 * n mod 2 ^ 32"
    by (simp_all only: unat_of_nat) simp_all
qed

text \<open>The topics of the streams are distinct.\<close>

lemma stream_topics_distinct: "distinct (map (stream_topic prefix) [1..streams])"
  by (auto simp: distinct_map inj_on_def stream_topic_def intro: show_int_inj)

lemma connect_failures:
  assumes "0 \<le> a" and "a + int n < 2 ^ 63" and "0 \<le> d" and "d * 2 ^ n < 2 ^ 63"
    and "retries \<le> 0 \<or> a + int n \<le> retries"
  shows "connect retries a d (replicate n (Failed False) @ os)
    = (case connect retries (a + int n) (d * 2 ^ n) os of
        (r, waits) \<Rightarrow> (r, map (\<lambda>k. d * 2 ^ k) [0..<n] @ waits))"
  using assms
proof (induction n arbitrary: a d)
  case 0
  then show ?case by (simp split: prod.split)
next
  case (Suc n)
  have "d * 2 * 1 \<le> d * 2 * 2 ^ n" using Suc.prems(3) by (intro mult_left_mono) simp_all
  then have wrap: "wrap64 (a + 1) = a + 1" "wrap64 (d * 2) = d * 2"
    using Suc.prems by (auto intro!: wrap64_id simp: mult.assoc)
  have "map (\<lambda>k. d * 2 ^ k) [0..<Suc n] = d * 2 ^ 0 # map (\<lambda>k. d * 2 * 2 ^ k) [0..<n]"
    by (subst upt_conv_Cons) (simp_all add: map_Suc_upt [symmetric] comp_def mult.assoc del: upt_Suc)
  with Suc.IH [of "a + 1" "d * 2"] Suc.prems wrap show ?case
    by (auto simp: Let_def algebra_simps split: prod.split)
qed

lemma connect_ends:
  assumes "0 < retries" and "0 \<le> a" and "a \<le> retries" and "retries < 2 ^ 63 - 1"
    and "retries - a < int (length os)"
  shows "fst (connect retries a d os) \<noteq> StillTrying"
  using assms
proof (induction retries a d os rule: connect.induct)
  case (3 retries a d cancelled os)
  have wrap: "wrap64 (a + 1) = a + 1" using 3 by (intro wrap64_id) simp_all
  show ?case
  proof (cases "retries < a + 1 \<or> cancelled")
    case True
    with 3 wrap show ?thesis by (auto simp: Let_def)
  next
    case False
    have "fst (connect retries (a + 1) (wrap64 (d * 2)) os) \<noteq> StillTrying"
      using 3 False wrap by (auto simp: Let_def)
    with False wrap show ?thesis by (simp add: Let_def case_prod_unfold)
  qed
qed simp_all

text \<open>With a positive number of retries a publisher stops trying to connect after at most
  one attempt more than that, whatever happens.  If every attempt fails it gives up after
  exactly that many, having waited the initial delay, then twice as long each time; if the
  first success comes earlier it connects after the delays before it.  (The doubling is
  exact as long as it stays in the range of a duration.)\<close>

theorem publisher_gives_up:
  assumes "0 < retries" and "retries < 2 ^ 63 - 1" and "0 \<le> d" and "d * 2 ^ nat retries < 2 ^ 63"
  shows "(\<forall>os. retries < int (length os) \<longrightarrow> fst (connect retries 0 d os) \<noteq> StillTrying)
    \<and> connect retries 0 d (replicate (nat retries) (Failed False) @ Failed c # os)
        = (GaveUp, map (\<lambda>k. d * 2 ^ k) [0..<nat retries])
    \<and> (\<forall>n \<le> nat retries. connect retries 0 d (replicate n (Failed False) @ Started # os)
        = (Connected, map (\<lambda>k. d * 2 ^ k) [0..<n]))"
proof -
  have run: "connect retries 0 d (replicate n (Failed False) @ os')
      = (case connect retries (int n) (d * 2 ^ n) os' of
          (r, waits) \<Rightarrow> (r, map (\<lambda>k. d * 2 ^ k) [0..<n] @ waits))" if "n \<le> nat retries" for n os'
  proof -
    have "d * 2 ^ n \<le> d * 2 ^ nat retries" using assms(3) that by (intro mult_left_mono) simp_all
    with that assms show ?thesis using connect_failures [of 0 n d retries os'] by simp
  qed
  have "wrap64 (retries + 1) = retries + 1" using assms by (intro wrap64_id) simp_all
  then have "connect retries retries x (Failed c # os) = (GaveUp, [])" for x
    using assms(1) by (simp add: Let_def)
  with run [of "nat retries" "Failed c # os"] run [of _ "Started # os"] assms connect_ends [of retries 0 _ d]
  show ?thesis by simp
qed

theorem publisher_gives_up_witness:
  "connect 5 0 1000000000 (replicate 5 (Failed False) @ [Failed False])
     = (GaveUp, map (\<lambda>k. 1000000000 * 2 ^ k) [0..<5])"
  using publisher_gives_up [of 5 1000000000 False "[]"] by simp

text \<open>With no retries the loop does not give up but goes on for ever.\<close>

theorem zero_retries_never_gives_up:
  "fst (connect 0 a d (replicate n (Failed False))) = StillTrying"
  by (induction n arbitrary: a d) (simp_all add: Let_def case_prod_unfold)

end
