(* ===== verification/ManualPrograms.thy ===== *)
theory ManualPrograms
  imports Loadtest Otlp Execution
begin

text \<open>
  The small programs of \<^verbatim>\<open>tmp-disabled/\<close>, which the build leaves out: they exercise the
  manager, the metrics and an RTSP client by hand.  What a program prints is part of its
  result where it shows the state of the modelled components.
\<close>

section \<open>A manager by hand\<close>

text \<open>\<^verbatim>\<open>direct_sub.go\<close>: one publisher, one subscriber, and the status after every call.\<close>

definition direct_sub_config :: config where
  "direct_sub_config = \<lparr>PublishPort = 0, SubscribePort = 0, MaxPublishers = 1,
     MaxSubscribersPerTopic = 5, PublisherQueueSize = 1024, SubscriberQueueSize = 256,
     PublisherGracePeriod = 0, EnableUDP = False, PublisherUDPBase = 0, SubscriberUDPBase = 0\<rparr>"

definition direct_sub_main :: "world \<Rightarrow> (status_json list \<times> manager \<times> world) option" where
  "direct_sub_main w =
     (let m = NewManager direct_sub_config; status = Status [''testtopic''] in
      case NewSubscriberSession ''sub1'' 10 w of
        None \<Rightarrow> None
      | Some (sub, w1) \<Rightarrow> (case NewPublisherSession ''pub1'' w1 of (pub, w2) \<Rightarrow>
          (case RegisterPublisher ''testtopic'' pub m w2 of
             None \<Rightarrow> None
           | Some (_, m1, w3) \<Rightarrow> (case RegisterSubscriber ''testtopic'' sub m1 w3 of (_, m2, w4) \<Rightarrow>
               (case UnregisterSubscriber ''testtopic'' ''sub1'' m2 w4 of (m3, w5) \<Rightarrow>
                 (case UnregisterPublisher ''testtopic'' m3 w5 of (m4, w6) \<Rightarrow>
                   Some ([status m1, status m2, status m3, status m4], m4, w6)))))))"

text \<open>What the program prints, as the four statuses: the publisher and the subscriber come and
  go, and nothing is left; the grace timer is armed with no delay.\<close>

theorem direct_sub_prints:
  "\<exists>ss m w t. direct_sub_main init_world = Some (ss, m, w)
     \<and> map st_publisher_count ss = [1, 1, 1, 0]
     \<and> map (map st_subscriber_count \<circ> st_topics) ss = [[0], [1], [0], [0]]
     \<and> map (map st_publisher_id \<circ> st_topics) ss = [[''pub1''], [''pub1''], [''pub1''], [[]]]
     \<and> cancelled w = {0, 1}
     \<and> fmlookup (topics m) ''testtopic'' = Some t \<and> graceTimer t = Some (Armed 0)"
  by (simp add: direct_sub_main_def direct_sub_config_def run_eval Status_def topic_status_of_def
      PublisherID_def insert_commute)

section \<open>Metrics by hand\<close>

text \<open>
  \<^verbatim>\<open>emitter.go\<close>: the exporter, then ten turns.  \<open>InitOTLP\<close> reports no error, so the program
  goes on whatever the collector does.
\<close>

definition emit_once :: "metrics \<Rightarrow> metrics" where
  "emit_once m = IncAllocatorReservations (IncPacketsReceived m)"

definition emitter_main :: "otlp_env \<Rightarrow> metrics \<Rightarrow> int option \<times> metrics" where
  "emitter_main env m = (case InitOTLP ''localhost:4317'' env m of
     (retry, m1) \<Rightarrow> (retry, (emit_once ^^ 10) m1))"

lemma emit_n:
  "promPacketsReceived ((emit_once ^^ n) m) = promPacketsReceived m + int n"
  "promAllocatorReservations ((emit_once ^^ n) m) = promAllocatorReservations m + int n"
  "packetsReceived ((emit_once ^^ n) m) = map_option (\<lambda>v. v + int n) (packetsReceived m)"
  by (induction n; simp add: emit_once_def metric_defs option.map_comp comp_def option.map_ident ac_simps)+

lemma create_instruments_prom:
  "\<forall>i \<in> set is. \<forall>v m. promPacketsReceived (snd i v m) = promPacketsReceived m \<Longrightarrow>
    promPacketsReceived (snd (create_instruments err is m)) = promPacketsReceived m"
  by (induction err "is" m rule: create_instruments.induct) (auto split: option.split)

lemma tryInit_prom: "promPacketsReceived (snd (tryInit endpoint env m)) = promPacketsReceived m"
proof -
  have "\<forall>i \<in> set instruments. \<forall>v m. promPacketsReceived (snd i v m) = promPacketsReceived m"
    by (simp add: instruments_def)
  then show ?thesis by (simp add: tryInit_def Let_def create_instruments_prom)
qed

text \<open>Prometheus always sees the ten packets; the collector sees them when it was reached at the
  start.\<close>

theorem emitter_counts:
  assumes "emitter_main env m = (retry, m')"
  shows "promPacketsReceived m' = promPacketsReceived m + 10
    \<and> (retry = None \<longleftrightarrow> reachable_collector ''localhost:4317'' env)
    \<and> (retry = None \<longrightarrow> packetsReceived m' = Some 10)"
proof -
  obtain e m1 where t: "tryInit ''localhost:4317'' env m = (e, m1)" by fastforce
  then have main: "retry = (if e = None then None else Some (5 * second))" "m' = (emit_once ^^ 10) m1"
    using assms by (auto simp: emitter_main_def InitOTLP_def split: option.splits)
  have "packetsReceived m1 = Some 0" if "e = None"
    using tryInit_live [of "''localhost:4317''" env m] tryInit_ok [of "''localhost:4317''" env m] t that
    by (simp add: otlp_vars_def eval_nat_numeral)
  with main tryInit_prom [of "''localhost:4317''" env m] tryInit_ok [of "''localhost:4317''" env m] t emit_n [of 10 m1]
  show ?thesis by (auto split: if_splits)
qed

section \<open>An RTSP client by hand\<close>

text \<open>
  \<^verbatim>\<open>pub_h264.go\<close>: the URL and the packets given to the client; \<open>None\<close> when the client
  cannot start, which ends the program.  A packet that cannot be written is only logged.
\<close>

definition pub_h264_main :: "bool \<Rightarrow> (string \<times> rtp_packet list) option" where
  "pub_h264_main started = (if \<not> started then None
     else Some (''rtsp://localhost:8554/topic3'',
       map (\<lambda>i. \<lparr>Version = 2, PayloadType = 96, SequenceNumber = word_of_nat i,
         Timestamp = word_of_nat (i * 3000), SSRC = 12345, Payload = [0, 0, 1, 9]\<rparr>) [0..<50]))"

lemma publish_loop_length:
  "length (publish_loop ident sq ts (replicate n (Tick True))) = n"
  by (induction n arbitrary: sq ts) simp_all

text \<open>The load generator's publisher writes the same packets.\<close>

theorem pub_h264_is_a_native_publisher:
  "pub_h264_main True = Some (publisher_url ''localhost'' 8554 ''topic3'',
     publish_loop 12345 0 0 (replicate 50 (Tick True)))"
proof -
  have "publish_loop 12345 0 0 (replicate 50 (Tick True))
      = map (\<lambda>i. publisher_packet 12345 (of_nat i) (3000 * of_nat i)) [0..<50]"
    by (rule nth_equalityI) (simp_all add: publish_loop_length publish_loop_nth)
  moreover have port: "show_int 8554 = ''8554''"
    by (simp add: show_int_def radix_str.simps digit_char_def) code_simp
  moreover have "publisher_url ''localhost'' 8554 ''topic3'' = ''rtsp://localhost:8554/topic3''"
    using port by (simp add: publisher_url_def)
  ultimately show ?thesis
    by (simp add: pub_h264_main_def publisher_packet_def algebra_simps)
qed

text \<open>
  \<^verbatim>\<open>sub.go\<close>: the client starts and plays; either failure ends the program.  The address and
  the URL it uses.
\<close>

definition sub_main :: "bool \<Rightarrow> bool \<Rightarrow> (string \<times> string) option" where
  "sub_main started plays = (if \<not> started then None
     else if \<not> plays then None
     else Some (''localhost:8555'', ''rtsp://localhost:8555/topic3''))"

end
