(* ===== verification/UnitTests.thy ===== *)
theory UnitTests
  imports ShutdownTheorems Federation
begin

text \<open>
  The repository's own tests, run on the model: each theorem states that the assertions of
  one test function hold in the run the test describes.  The waits of the tests are the
  steps of the timer and the dispatcher that happen meanwhile.
\<close>

definition test_config :: "int \<Rightarrow> int \<Rightarrow> config" where
  "test_config pubs subs = \<lparr>PublishPort = 0, SubscribePort = 0, MaxPublishers = pubs,
     MaxSubscribersPerTopic = subs, PublisherQueueSize = 0, SubscriberQueueSize = 0,
     PublisherGracePeriod = 1000000000, EnableUDP = False, PublisherUDPBase = 0, SubscriberUDPBase = 0\<rparr>"

section \<open>\<^verbatim>\<open>topic_test.go\<close> and \<^verbatim>\<open>topic_metrics_test.go\<close>\<close>

theorem TestRegisterPublisherAndUnregister:
  "\<exists>p m1 w1 m2 w2. NewPublisherSession ''pub1'' init_world = (p, w1)
     \<and> RegisterPublisher ''topic1'' p (NewManager (test_config 5 5\<lparr>PublisherQueueSize := 4\<rparr>)) w1 = Some (None, m1, w2)
     \<and> st_publisher_count (Status [''topic1''] m1) = 1
     \<and> map (\<lambda>s. (st_name s, st_has_publisher s)) (st_topics (Status [''topic1''] m1)) = [(''topic1'', True)]
     \<and> fst (UnregisterPublisher ''topic1'' m1 w2) = m2
     \<and> st_publisher_count (Status [''topic1''] m2) = 0
     \<and> map (\<lambda>s. (st_name s, st_has_publisher s)) (st_topics (Status [''topic1''] m2)) = [(''topic1'', False)]"
  by (simp add: run_eval test_config_def Status_def topic_status_of_def)

theorem TestMaxPublishers:
  "\<exists>s m w. exec_event (Publisher_registers ''a'' ''p1'') (init_sys (test_config 1 0)) = Some s
     \<and> publisherCount (mgr s) = 1
     \<and> RegisterPublisher ''b'' p (mgr s) (wld s) = Some (Some ErrMaxPublishers, m, w)"
  by (simp add: run_eval test_config_def)

theorem TestRegisterSubscriberLimits:
  "\<exists>s sub2 w2 m w. run_under any_event [Publisher_registers ''topicX'' ''p1'', Subscriber_registers ''topicX'' ''s1'' 4]
        (init_sys (test_config 5 1)) = Some s
     \<and> promActiveSubscribers (wmetrics (wld s)) = 1
     \<and> NewSubscriberSession ''s2'' 4 (wld s) = Some (sub2, w2)
     \<and> RegisterSubscriber ''topicX'' sub2 (mgr s) w2 = (Some ErrTopicMaxSubscribers, m, w)"
  by (simp add: run_eval test_config_def)

theorem TestSetGetTopicStream:
  "\<exists>s. exec_event (Publisher_registers ''tstream'' ''p1'') (init_sys (test_config 5 0)) = Some s
     \<and> GetTopicStream ''tstream'' (SetTopicStream ''tstream'' (Some st) (mgr s)) = Some st"
  by (simp add: run_eval test_config_def)

theorem TestTopicCloseDecrementsActiveSubscribers:
  "\<exists>s s'. run_under any_event [Publisher_registers ''t1'' ''p1'', Subscriber_registers ''t1'' ''s1'' 8]
        (init_sys (test_config 5 5)) = Some s
     \<and> promActiveSubscribers (wmetrics (wld s)) = 1
     \<and> run_under any_event [Publisher_leaves ''t1'', Timer_expires ''t1'', Close_runs ''t1'' [''s1'']] s = Some s'
     \<and> promActiveSubscribers (wmetrics (wld s')) = 0"
  by (simp add: run_eval test_config_def)

section \<open>\<^verbatim>\<open>cluster_test.go\<close>\<close>

text \<open>For every hash and every topic, where the test tries one: when another node is left, draining
  the owner gives the topic another owner.\<close>

lemma drained_owner_changes:
  assumes "cluster_ok c" and "n \<in> set (nodes c)" and "\<not> IsDraining c n" and "n \<noteq> Owner sum64 c topic"
  shows "Owner sum64 (SetDraining (Owner sum64 c topic) True c) topic \<notin> {Owner sum64 c topic, []}"
proof -
  let ?c = "SetDraining (Owner sum64 c topic) True c"
  have ok: "cluster_ok ?c" using assms(1) by (rule cluster_ok_SetDraining)
  then have nil: "[] \<notin> set (nodes ?c)" by (simp add: cluster_ok_def)
  have "n \<in> set (eligible ?c)" using assms by (simp add: eligible_drained) (simp add: eligible_def)
  with nil show ?thesis
  proof (cases rule: Owner_cases [of ?c sum64 topic])
    case some
    from some(1) have "Owner sum64 ?c topic \<in> set (eligible ?c)" by (rule first_best_mem)
    with some show ?thesis using assms(1) by (simp add: eligible_drained)
  qed simp
qed

theorem TestOwnerSkipsDraining:
  "\<exists>c. NewFromCSV ''n1,n2,n3'' ''n1'' = Inr c
     \<and> Owner sum64 (SetDraining (Owner sum64 c topic) True c) topic \<noteq> Owner sum64 c topic"
proof -
  let ?c = "\<lparr>nodes = [''n1'', ''n2'', ''n3''], nodeSet = {''n1'', ''n2'', ''n3''}, self_name = ''n1'', draining = fmempty\<rparr>"
  have "node_names ''n1,n2,n3'' = [''n1'', ''n2'', ''n3'']"
    using node_names_Join [of "[''n1'', ''n2'', ''n3'']"] by (simp add: trimmed_graphic graphic_def)
  then have new: "NewFromCSV ''n1,n2,n3'' ''n1'' = Inr ?c" by (simp add: NewFromCSV_eq)
  have ok: "cluster_ok ?c" by (simp add: cluster_ok_def IsDraining_def insert_commute)
  define n where "n = (if Owner sum64 ?c topic = ''n1'' then ''n2'' else ''n1'')"
  then have "n \<in> {''n1'', ''n2''}" "n \<noteq> Owner sum64 ?c topic" by auto
  then have "n \<in> set (nodes ?c)" "\<not> IsDraining ?c n" by (auto simp: IsDraining_def)
  from drained_owner_changes [OF ok this \<open>n \<noteq> Owner sum64 ?c topic\<close>] new show ?thesis by auto
qed

section \<open>\<^verbatim>\<open>allocator_test.go\<close>\<close>

text \<open>The machine of the tests has all ports free but 5000.\<close>

abbreviation fresh_allocator :: "int \<Rightarrow> int \<Rightarrow> allocator" where
  "fresh_allocator p q \<equiv> \<lparr>a_start = p, a_end = q, reserved = fmempty\<rparr>"

lemma new_allocators:
  "NewAllocator 40000 40010 = Some (fresh_allocator 40000 40010)"
  "NewAllocator 41000 41000 = Some (fresh_allocator 41000 41000)"
  "NewAllocator 42000 42010 = Some (fresh_allocator 42000 42010)"
  by (simp_all add: NewAllocator_def go_rem_def go_quot_def)

theorem TestReservePairGetConnRelease:
  "\<exists>a1 os1 mt a2 os2. NewAllocator 40000 40010 = Some (fresh_allocator 40000 40010)
     \<and> ReservePair (fresh_allocator 40000 40010) demo_os metrics_init = (Some 40000, a1, os1, mt)
     \<and> GetConn a1 40000 \<noteq> None \<and> GetConn a1 40001 \<noteq> None
     \<and> release 40000 (a1, os1) = (a2, os2)
     \<and> GetConn a2 40000 = None \<and> GetConn a2 40001 = None"
proof -
  let ?a = "fresh_allocator 40000 40010"
  have "pair_free ?a demo_os 40000" by (simp add: pair_free_def bindable_def port_open_def demo_os_def fmran'_iff)
  moreover have "os_ok demo_os" using demo_alloc_ok by (rule alloc_ok_os)
  moreover have "40000 \<le> a_end ?a" by simp
  ultimately obtain a1 os1 where
    "reserve_from 40000 ?a demo_os metrics_init = (Some 40000, a1, os1, count_reservation metrics_init)"
    and one: "reserved_pair 40000 ?a demo_os a1 os1"
    using reserve_from_free [of demo_os 40000 ?a metrics_init] by metis
  then have "ReservePair ?a demo_os metrics_init = (Some 40000, a1, os1, count_reservation metrics_init)"
    by (simp add: ReservePair_def)
  moreover have "GetConn a1 40000 \<noteq> None" "GetConn a1 40001 \<noteq> None"
    using one by (auto simp: reserved_pair_def GetConn_def)
  moreover obtain a2 os2 where rel: "release 40000 (a1, os1) = (a2, os2)" by fastforce
  moreover have "GetConn a2 40000 = None" "GetConn a2 40001 = None"
    using rel one by (auto simp: reserved_pair_def release_def release_port_def GetConn_def)
  ultimately show ?thesis using new_allocators(1) by blast
qed

text \<open>Whatever ports are free: after the only pair nothing can be reserved.\<close>

theorem TestReserveExhaustion:
  assumes "os_ok os" and "NewAllocator 41000 41000 = Some a" and "ReservePair a os mt = (Some p, a1, os1, mt1)"
  shows "p = 41000 \<and> ReservePair a1 os1 mt1 = (None, a1, os1, mt1)"
proof -
  have a: "a = fresh_allocator 41000 41000" using assms(2) by (simp add: new_allocators)
  have "a_start a \<le> p \<and> p \<le> a_end a \<and> reserved_pair p a os a1 os1"
    using assms(1)
  proof (cases rule: ReservePair_cases [of os a mt])
    case (reserved q a' os')
    with assms(3) show ?thesis by simp
  next
    case (exhausted os')
    with assms(3) show ?thesis by simp
  qed
  with a have p: "p = 41000" and one: "reserved_pair p a os a1 os1" by simp_all
  from one a have a1: "a_start a1 = 41000" "a_end a1 = 41000" by (auto simp: reserved_pair_def)
  from one p have "fmlookup (reserved a1) 41000 \<noteq> None" by (auto simp: reserved_pair_def)
  then have "reserve_from 41000 a1 os1 mt1 = reserve_from 41002 a1 os1 mt1"
    using a1 by (subst reserve_from.simps) simp
  also have "\<dots> = (None, a1, os1, mt1)" using a1 by (simp add: reserve_from_end)
  finally show ?thesis using p a1 by (simp add: ReservePair_def)
qed

section \<open>\<^verbatim>\<open>server_test.go\<close> and \<^verbatim>\<open>integration_test.go\<close>\<close>

text \<open>When two pairs can be reserved, the servers start with their sockets, the allocator keeps
  them, and the servers close.\<close>

theorem TestServerStartWithAllocator:
  assumes "os_ok os" and "NewAllocator 42000 42010 = Some a"
    and "ReservePair a os mt = (Some p1, a1, os1, mt1)" and "ReservePair a1 os1 mt1 = (Some p2, a2, os2, mt2)"
    and "Start (NewServer 0 0 (Some a2) None False 0 0) (NewManager (test_config 0 0
        \<lparr>EnableUDP := True, PublisherUDPBase := p1, SubscriberUDPBase := p2\<rparr>)) = (h, pub, sub)"
  shows "from_allocator pub \<and> from_allocator sub \<and> \<not> proxied pub \<and> \<not> proxied sub
    \<and> GetConn a2 p1 \<noteq> None \<and> GetConn a2 p2 \<noteq> None \<and> server_Close [] h m w = (h, m, w)"
proof -
  have "alloc_ok a os" using assms(1,2) by (rule alloc_ok_NewAllocator [rotated])
  from reserve_two [OF this assms(3,4)] have "0 < p1" "0 < p2" "GetConn a2 p1 \<noteq> None" "GetConn a2 p2 \<noteq> None"
    by (simp_all add: two_pairs_def)
  with assms(5) show ?thesis
    by (auto simp: Start_def Let_def Config_def NewManager_def test_config_def rtsp_server_settings_def NewServer_def)
qed

text \<open>Two servers of one cluster, each with its own view: their listeners are proxied.\<close>

theorem TestTwoServerStartAndProxyListen:
  "\<exists>c1 c2. NewFromCSV ''srv1,srv2'' ''srv1'' = Inr c1 \<and> NewFromCSV ''srv1,srv2'' ''srv2'' = Inr c2
     \<and> Self c1 = ''srv1'' \<and> Self c2 = ''srv2''
     \<and> (\<forall>c \<in> {c1, c2}. case Start (NewServer 0 0 None (Some c) True 1000000000 5000000000)
            (NewManager (test_config 0 0)) of (h, pub, sub) \<Rightarrow> proxied pub \<and> proxied sub
              \<and> UDPRTPAddress pub = None \<and> UDPRTPAddress sub = None)"
proof -
  have "node_names ''srv1,srv2'' = [''srv1'', ''srv2'']"
    using node_names_Join [of "[''srv1'', ''srv2'']"] by (simp add: trimmed_graphic graphic_def)
  then show ?thesis
    by (simp add: NewFromCSV_eq Self_def Start_def Config_def NewManager_def test_config_def
        rtsp_server_settings_def NewServer_def)
qed

end
