(* ===== verification/Spec2Isabelle.thy ===== *)
theory Spec2Isabelle
  imports TopicTheorems LifecycleTheorems PacketTheorems Progress ClusterTheorems AllocTheorems
    ServerTheorems Federation ShutdownTheorems Admin ManualPrograms UnitTests
begin

text \<open>
  A verification of \<^verbatim>\<open>rtsper\<close>, an RTSP relay written in Go: publishers announce a topic
  and send RTP packets, readers of the topic receive them; several nodes share the topics
  by rendezvous hashing and forward connections to the owner of a topic.

  \<^bold>\<open>The program and its theories.\<close>

  \<^item> \<^verbatim>\<open>pkg/topic/topic.go\<close>.  \<open>Topic\<close> has the sessions, their queues and the methods of one
    topic (\<^verbatim>\<open>SetPublisher\<close>, \<^verbatim>\<open>RemovePublisher\<close> with its grace timer, \<^verbatim>\<open>AddSubscriber\<close>, \<^verbatim>\<open>Close\<close>,
    the dispatcher's loop); \<open>Manager\<close> has the methods of the manager
    (\<^verbatim>\<open>RegisterPublisher\<close> to \<^verbatim>\<open>PublishPacket\<close>, \<^verbatim>\<open>Status\<close>, \<^verbatim>\<open>Shutdown\<close>).  A Go struct is a record
    with the same fields, a Go map an \<open>fmap\<close>, a channel the record of \<open>GoChan\<close>.  A method
    is a function that takes and returns the state; \<open>None\<close> is a run-time panic, an error
    value is an \<open>option\<close> or a sum.  \<open>System\<close> is the transition system in which manager
    calls, timers, dispatchers and the selects of \<^verbatim>\<open>PublishPacket\<close> interleave;
    \<open>Execution\<close> runs it on concrete events.  \<open>Registry\<close> is the abstract specification:
    who publishes and who subscribes to each topic.
  \<^item> \<^verbatim>\<open>pkg/metrics/metrics.go\<close>: \<open>Metrics\<close> (counters and gauges) and \<open>Otlp\<close> (\<^verbatim>\<open>InitOTLP\<close> and its
    background retries).
  \<^item> \<^verbatim>\<open>pkg/cluster/cluster.go\<close>: \<open>Cluster\<close>, with the hash function as an argument.
  \<^item> \<^verbatim>\<open>pkg/udpalloc/allocator.go\<close> and \<^verbatim>\<open>cmd/rtsper/validate_udp.go\<close>: \<open>UdpAlloc\<close>, with the table
    of open sockets of the process as part of the state.
  \<^item> \<^verbatim>\<open>pkg/rtspsrv/server.go\<close>: \<open>Server\<close> (the handler that the RTSP library calls, and
    \<^verbatim>\<open>Start\<close>); \<open>ServerProps\<close> has the transition system of a node, in which requests of
    sessions interleave with the events of \<open>System\<close>.
  \<^item> \<^verbatim>\<open>pkg/rtspsrv/proxy_listener.go\<close> and \<^verbatim>\<open>buffered_conn.go\<close>: \<open>Proxy\<close>.  A connection is the
    sequence of segments in which its bytes arrive.
  \<^item> \<^verbatim>\<open>cmd/rtsper/main.go\<close>: \<open>Startup\<close>, with \<open>GoTime\<close> for the durations of the configuration
    file and \<open>Logging\<close> for \<^verbatim>\<open>pkg/log/log.go\<close>.
  \<^item> \<^verbatim>\<open>pkg/admin/admin.go\<close>: \<open>Admin\<close>.  \<^verbatim>\<open>docs/loadtest/loadtest.go\<close>: \<open>Loadtest\<close>.  The
    programs under \<^verbatim>\<open>tmp-disabled\<close>: \<open>ManualPrograms\<close>.
  \<^item> The nodes of a cluster together: \<open>Network\<close> (a connection that travels from listener to
    listener; a network maps host names to machines) and \<open>Federation\<close> (the states of several
    nodes side by side).
  \<^item> \<open>Prelude\<close>, \<open>GoStrings\<close>, \<open>GoNet\<close>, \<open>GoTime\<close> and \<open>GoChan\<close> model what the code uses of Go:
    integers, maps and the free order of a \<^verbatim>\<open>range\<close> over them, strings as byte lists, the
    parsing of addresses, URLs and durations, channels.

  \<^bold>\<open>Interfaces.\<close>  Each is a locale that its provider interprets on the model's own
  definitions: \<open>drop_oldest_queue\<close> (the inbound queue of a topic and the queue of a
  subscriber), \<open>manager_invariant\<close> (what every step of the system keeps; the two gauges),
  \<open>topic_routing\<close> (which node serves a topic; the cluster), \<open>pair_allocator\<close> (pairs of
  ports; the allocator), \<open>byte_source\<close> (a reader's view of a connection; the network
  connection and the buffered one on top of it).

  \<^bold>\<open>What is shown.\<close>

  \<^item> Topics (\<open>TopicTheorems\<close>, \<open>LifecycleTheorems\<close>, \<open>PacketTheorems\<close>, \<open>Delivery\<close>, \<open>Progress\<close>): the manager
    refines the registry; the counters are exact under the disciplines its callers keep;
    limits hold in every reachable state; the only possible panic is a send on a channel
    that was closed after the check, and it can happen; the grace period; what the queues
    keep, in which order packets are delivered, that all subscribers get them, and that a
    fairly scheduled dispatcher empties its topic.
  \<^item> Cluster (\<open>ClusterTheorems\<close>): the owner is the best node that is not draining, nodes
    that agree on members and flags agree on it, draining moves only the topics it must.
  \<^item> Ports (\<open>AllocTheorems\<close>): first fit, consistency of the tables, release undoes reserve.
  \<^item> Server (\<open>ServerTheorems\<close>): in every reachable state of a node the session tables and the
    manager agree, so that the counters count sessions, and the state is well formed; the
    answers to requests.
  \<^item> Proxy (\<open>ProxyTheorems\<close>): the decision does not depend on segmentation, a connection that
    is handed over is transparent, and a forwarded request is served where it arrives.
  \<^item> Cluster of nodes (\<open>Network\<close>, \<open>Federation\<close>): with views that agree a connection is forwarded
    at most once and a topic has one publisher in the cluster; with opposed draining flags a
    connection circulates for ever, and a drain can leave a topic with two publishers.
  \<^item> Start (\<open>StartupTheorems\<close>, \<open>Otlp\<close>): where each setting comes from, that the servers get the
    allocator's sockets and a failed start keeps none, the automatic limit, the retries.
    The end (\<open>ShutdownTheorems\<close>): from any reachable state the shutdown leaves nothing behind.
  \<^item> \<open>Admin\<close>: the effect of a drain request.  \<open>Loadtest\<close>: its retries end.
  \<^item> In this theory: the node that a started process runs is a start state of the
    transition system of \<open>ServerProps\<close>, so that everything shown about nodes holds for it,
    with the limits its settings ask for.

  \<open>UnitTests\<close> states the repository's own Go tests over the model, where they test what it
  models; its theorems have the names of the tests.

  Besides the properties, some theorems exhibit behaviours on concrete input:
  \<open>pipelined_bytes_are_lost\<close>, \<open>second_release_frees_another_holder\<close>,
  \<open>otlp_gauge_can_go_negative\<close>, \<open>zero_retries_never_gives_up\<close>.

  \<^bold>\<open>Modelling choices.\<close>  A method that holds its mutex throughout is one step.  The order
  of a \<^verbatim>\<open>range\<close> over a map is an argument, a list that enumerates the keys.  Integers are
  unbounded where the code only adds to or compares them, and go through \<open>wrap64\<close> where a
  product or a doubling can overflow; sequence numbers and timestamps of RTP are words.
  No definition takes fuel to stand for an unbounded run of the program: loops end by a
  measure (\<open>reserve_from\<close>, \<open>read_bytes\<close>, \<open>peek\<close>, \<open>duration_sum\<close>) or consume a list of
  inputs (\<open>Accept\<close>, \<open>retry_loop\<close>, \<open>connect\<close>), and the transition systems have runs of any
  length; \<open>trim_runes\<close> and \<open>fields_from\<close> count down from the length of their string, which
  is enough because each turn drops a byte.  The way of a connection through the network may
  be endless: \<open>route\<close> is a partial function, and its value \<open>None\<close> is shown or excluded.  Float64 occurs in the metrics, where the
  code adds integers, and in \<^verbatim>\<open>ParseDuration\<close>, where the product with a fraction is an
  argument.

  \<^bold>\<open>Not modelled.\<close>  The RTSP library gortsplib (requests and their order, streams, the
  listeners of \<open>Start\<close>), the hash, the OpenTelemetry and Prometheus libraries, the decoding
  of JSON text and of the command line, the HTTP server of the admin pages, TLS and real
  time: they are inputs or arguments.  The texts of log messages are left out except in
  \<open>Logging\<close>.  Processes, signals and the RTSP client of the load generator and of the manual
  programs are inputs.
\<close>

section \<open>A process from its start on\<close>

lemma started_node:
  assumes "r_manager r = NewManager cfg" and "r_handler r = new_handler (r_server r)"
  shows "\<lparr>n_sys = \<lparr>mgr = r_manager r, wld = w, calls = (\<lambda>_. None)\<rparr>, n_handler = r_handler r\<rparr>
    = start_node (Config (r_manager r)) (r_server r) w"
  using assms by (simp add: start_node_def start_sys_def Config_def NewManager_def)

text \<open>C40: The manager, the handler and the world that a start leaves are a start state of
  the transition system of a node.  In every state the node can reach, whatever sessions,
  timers and dispatchers do: the publisher count is the number of publishing sessions;
  with automatic sizing their memory fits into the machine (or there is only one), else
  they respect the limit of the file or the flag unless it is 0; and no topic has more
  subscribers than the limit of the file or the flag.\<close>

theorem started_process_keeps_its_limits:
  assumes "os_ok (p_os pr)" and "fresh_world (p_world pr)"
    and "main_start env fl pr = (Running r, pr')"
    and "0 \<le> PublisherQueueSize (Config (r_manager r))"
  shows "node_reach sum64 (Config (r_manager r)) (r_server r)
      \<lparr>n_sys = \<lparr>mgr = r_manager r, wld = p_world pr', calls = (\<lambda>_. None)\<rparr>, n_handler = r_handler r\<rparr>
    \<and> (\<exists>fc. loadConfig env (fl_configPath fl) = Some fc
      \<and> (\<forall>n. node_reach sum64 (Config (r_manager r)) (r_server r) n \<longrightarrow>
          publisherCount (mgr (n_sys n)) = int (card {s. \<exists>k. publishes (n_handler n) s k})
          \<and> (if fl_autoMaxPublishers fl
             then 0 < fl_perPublisherMB fl \<longrightarrow> publisherCount (mgr (n_sys n)) \<le> 1
               \<or> publisherCount (mgr (n_sys n)) * fl_perPublisherMB fl \<le> total_memory env
             else let limit = first_nonzero (MaxPublishers fc) (fl_maxPublishers fl) in
               0 < limit \<longrightarrow> publisherCount (mgr (n_sys n)) \<le> limit)
          \<and> (\<forall>k t. fmlookup (topics (mgr (n_sys n))) k = Some t \<longrightarrow>
              fmsize (subscribers t) \<le> max 0 (first_nonzero (MaxSubscribersPerTopic fc) (fl_maxSubscribersPerTopic fl)))))"
proof -
  from assms(1,3) obtain fc cfg where fc: "loadConfig env (fl_configPath fl) = Some fc"
    and start: "r_manager r = NewManager cfg" "r_handler r = new_handler (r_server r)"
    and subs: "MaxSubscribersPerTopic cfg = first_nonzero (MaxSubscribersPerTopic fc) (fl_maxSubscribersPerTopic fl)"
    and pubs: "if fl_autoMaxPublishers fl then auto_size env fl = Some (MaxPublishers cfg) \<and> 1 \<le> MaxPublishers cfg
      else MaxPublishers cfg = first_nonzero (MaxPublishers fc) (fl_maxPublishers fl)"
    by (rule started_process)
  have cfg: "Config (r_manager r) = cfg" using start(1) by (simp add: Config_def NewManager_def)
  have "fresh_world (p_world pr')" using assms(1-3) by (rule main_start_fresh)
  then have node: "node_reach sum64 cfg (r_server r) (start_node cfg (r_server r) (p_world pr'))"
    by (rule node_reach.node_start)
  have limits: "publisherCount (mgr (n_sys n)) = int (card {s. \<exists>k. publishes (n_handler n) s k})
      \<and> (if fl_autoMaxPublishers fl
         then 0 < fl_perPublisherMB fl \<longrightarrow> publisherCount (mgr (n_sys n)) \<le> 1
           \<or> publisherCount (mgr (n_sys n)) * fl_perPublisherMB fl \<le> total_memory env
         else let limit = first_nonzero (MaxPublishers fc) (fl_maxPublishers fl) in
           0 < limit \<longrightarrow> publisherCount (mgr (n_sys n)) \<le> limit)
      \<and> (\<forall>k t. fmlookup (topics (mgr (n_sys n))) k = Some t \<longrightarrow>
          fmsize (subscribers t) \<le> max 0 (MaxSubscribersPerTopic cfg))"
    if reach: "node_reach sum64 cfg (r_server r) n" for n
  proof -
    note count = node_publisher_count [OF reach assms(4) [unfolded cfg]]
    have sys: "reach both_disciplines cfg (n_sys n)"
      using node_reach_ok [OF reach assms(4) [unfolded cfg]] by (simp add: node_ok_def)
    have "fmsize (subscribers t) \<le> max 0 (MaxSubscribersPerTopic cfg)"
      if "fmlookup (topics (mgr (n_sys n))) k = Some t" for k t
      using mgr_okD(5) [OF reach_mgr_ok [OF sys] that] reach_ok [OF sys] by simp
    moreover have "publisherCount (mgr (n_sys n)) \<le> 1
        \<or> publisherCount (mgr (n_sys n)) * fl_perPublisherMB fl \<le> total_memory env"
      if auto: "fl_autoMaxPublishers fl" "0 < fl_perPublisherMB fl"
    proof -
      have size: "auto_size env fl = Some (MaxPublishers cfg)" "1 \<le> MaxPublishers cfg"
        using pubs auto(1) by simp_all
      have le: "publisherCount (mgr (n_sys n)) \<le> MaxPublishers cfg" using count(2) size(2) by simp
      then have "publisherCount (mgr (n_sys n)) * fl_perPublisherMB fl
          \<le> MaxPublishers cfg * fl_perPublisherMB fl"
        using auto(2) by (intro mult_right_mono) simp_all
      with auto_size_facts(3) [OF size(1) auto(2)] le show ?thesis by linarith
    qed
    moreover have "publisherCount (mgr (n_sys n)) \<le> first_nonzero (MaxPublishers fc) (fl_maxPublishers fl)"
      if "\<not> fl_autoMaxPublishers fl" "0 < first_nonzero (MaxPublishers fc) (fl_maxPublishers fl)"
      using count(2) pubs that by simp
    ultimately show ?thesis using count(1) unfolding Let_def
      by (cases "fl_autoMaxPublishers fl") (simp_all only: if_True if_False, blast+)
  qed
  show ?thesis
    unfolding started_node [OF start] unfolding cfg
    using node fc limits unfolding subs by blast
qed

theorem started_process_keeps_its_limits_witness:
  "\<exists>r pr'. main_start demo_env demo_flags demo_process = (Running r, pr')
     \<and> node_reach byte_sum (Config (r_manager r)) (r_server r)
         \<lparr>n_sys = \<lparr>mgr = r_manager r, wld = p_world pr', calls = (\<lambda>_. None)\<rparr>, n_handler = r_handler r\<rparr>"
proof -
  obtain r pr' where start: "main_start demo_env demo_flags demo_process = (Running r, pr')"
    using demo_udp_starts by blast
  obtain fc cfg where fc: "loadConfig demo_env (fl_configPath demo_flags) = Some fc"
    and "r_manager r = NewManager cfg"
    and "PublisherQueueSize cfg = first_nonzero (PublisherQueueSize fc) (fl_publisherQueueSize demo_flags)"
    using demo_process_ok start by (rule started_process)
  moreover from fc have "fc = zero_config" by (simp add: loadConfig_def)
  ultimately have "0 \<le> PublisherQueueSize (Config (r_manager r))"
    by (simp add: Config_def NewManager_def first_nonzero_def zero_config_def demo_flags_def default_flags_def)
  moreover have "fresh_world (p_world demo_process)" by (simp add: demo_process_def)
  ultimately show ?thesis
    using started_process_keeps_its_limits [OF demo_process_ok _ start] start by blast
qed

end
